theory Spec2Isabelle
  imports Main "HOL-Library.Sublist" "HOL-Library.AList"
begin

section \<open>Strings\<close>

text \<open>
  Python strings are modelled as \<open>string\<close> (lists of \<open>char\<close>); a \<open>char\<close> stands for a
  code point below 256. The line break is code point 10.
\<close>

abbreviation NL :: char where
  "NL \<equiv> CHR 0x0A"

text \<open>\<open>str.isspace\<close> on the code points below 256.\<close>

definition isspace :: "char \<Rightarrow> bool" where
  "isspace c = ((of_char c :: nat) \<in> {9, 10, 11, 12, 13, 28, 29, 30, 31, 32, 133, 160})"

text \<open>\<open>str.strip()\<close>: leading and trailing whitespace removed.\<close>

definition strip :: "string \<Rightarrow> string" where
  "strip s = rev (dropWhile isspace (rev (dropWhile isspace s)))"

text \<open>\<open>str.startswith\<close> and \<open>str.endswith\<close> with a one-character argument.\<close>

definition startswith :: "string \<Rightarrow> char \<Rightarrow> bool" where
  "startswith s c = (case s of [] \<Rightarrow> False | x # _ \<Rightarrow> x = c)"

definition endswith :: "string \<Rightarrow> char \<Rightarrow> bool" where
  "endswith s c = startswith (rev s) c"

text \<open>
  \<open>str.split(sep)\<close> and \<open>re.split\<close> on a one-character separator: never empty; the
  empty string gives one empty piece.
\<close>

fun split_on :: "char \<Rightarrow> string \<Rightarrow> string list" where
  "split_on sep [] = [[]]"
| "split_on sep (c # cs) =
     (if c = sep then [] # split_on sep cs
      else (case split_on sep cs of l # ls \<Rightarrow> (c # l) # ls | [] \<Rightarrow> [[c]]))"

abbreviation split_nl :: "string \<Rightarrow> string list" where
  "split_nl \<equiv> split_on NL"

text \<open>\<open>'\n'.join(lines)\<close>.\<close>

fun join_nl :: "string list \<Rightarrow> string" where
  "join_nl [] = []"
| "join_nl [l] = l"
| "join_nl (l # l' # ls) = l @ NL # join_nl (l' # ls)"

text \<open>
  \<open>list.insert(i, x)\<close>: a negative index counts from the end, and an index outside the
  list is clamped to its ends.
\<close>

definition py_insert :: "'a list \<Rightarrow> int \<Rightarrow> 'a \<Rightarrow> 'a list" where
  "py_insert xs i x =
     (let n = int (length xs);
          j = (if i < 0 then max 0 (i + n) else min i n)
      in take (nat j) xs @ [x] @ drop (nat j) xs)"

section \<open>Line pattern addressing (nodes/code_generator.py)\<close>

text \<open>
  \<open>re.search(re.escape(pattern), line)\<close>: the escaped pattern matches itself only, so the
  search succeeds exactly when the pattern starts at some position of the line.
\<close>

fun re_search_escaped :: "string \<Rightarrow> string \<Rightarrow> bool" where
  "re_search_escaped pattern [] = (pattern = [])"
| "re_search_escaped pattern (c # cs) =
     (prefix pattern (c # cs) \<or> re_search_escaped pattern cs)"

text \<open>
  The two scanning loops of \<open>_find_line_index\<close> differ in the test of a line only;
  \<open>i\<close> is the position of the next line and \<open>count\<close> the matches seen so far.
\<close>

fun find_loop :: "(string \<Rightarrow> bool) \<Rightarrow> string list \<Rightarrow> int \<Rightarrow> int \<Rightarrow> int \<Rightarrow> int" where
  "find_loop P [] i count occurrence = - 1"
| "find_loop P (line # rest) i count occurrence =
     (if P line then
        (if count + 1 = occurrence then i
         else find_loop P rest (i + 1) (count + 1) occurrence)
      else find_loop P rest (i + 1) count occurrence)"

definition find_line_index :: "string list \<Rightarrow> string \<Rightarrow> int \<Rightarrow> int" where
  "find_line_index lines pattern occurrence =
     (if pattern = ''EMPTY_LINE''
      then find_loop (\<lambda>line. strip line = []) lines 0 0 occurrence
      else find_loop (re_search_escaped pattern) lines 0 0 occurrence)"

text \<open>The notions the specification of \<open>locate\<close> is stated in: the test a line has to pass, and the
  0-indexed positions of the lines that pass it, in document order.\<close>

definition line_matches :: "string \<Rightarrow> string \<Rightarrow> bool" where
  "line_matches pattern line =
     (if pattern = ''EMPTY_LINE'' then strip line = [] else sublist pattern line)"

definition match_positions :: "('a \<Rightarrow> bool) \<Rightarrow> 'a list \<Rightarrow> nat list" where
  "match_positions P ls = filter (\<lambda>i. P (ls ! i)) [0..<length ls]"

text \<open>
  \<open>_parse_location_pattern\<close> tries \<open>re.match(r'\((.+?)\)\[(\d+)\]', pattern)\<close>. The match
  is anchored at the start of the string only. \<open>isdigit\<close> is \<open>\d\<close> on the code points
  below 256, and \<open>int_of_digits\<close> is \<open>int\<close> on a string of such digits.
\<close>

definition isdigit :: "char \<Rightarrow> bool" where
  "isdigit c = (48 \<le> (of_char c :: nat) \<and> (of_char c :: nat) \<le> 57)"

definition int_of_digits :: "string \<Rightarrow> int" where
  "int_of_digits ds = foldl (\<lambda>a c. 10 * a + (int (of_char c) - 48)) 0 ds"

text \<open>
  The tail \<open>\)\[(\d+)\]\<close> of the expression at the start of \<open>s\<close>: the greedy \<open>\d+\<close>
  takes every digit there is, and giving one back never helps, since the next
  character would be a digit and not the closing bracket. Returns group 2.
\<close>

definition match_index :: "string \<Rightarrow> string option" where
  "match_index s =
     (case s of
        a # b # rest \<Rightarrow>
          if a = CHR '')'' \<and> b = CHR ''[''
             \<and> takeWhile isdigit rest \<noteq> []
             \<and> startswith (dropWhile isdigit rest) (CHR '']'')
          then Some (takeWhile isdigit rest)
          else None
      | _ \<Rightarrow> None)"

text \<open>
  The lazy group \<open>(.+?)\<close>: it takes one character that is not a line break, then tries
  the tail, and takes one more character each time the tail does not match. \<open>acc\<close> is
  the text taken so far. Returns groups 1 and 2.
\<close>

fun match_text :: "string \<Rightarrow> string \<Rightarrow> (string \<times> string) option" where
  "match_text acc [] = None"
| "match_text acc (c # cs) =
     (if c = NL then None
      else (case match_index cs of
              Some ds \<Rightarrow> Some (acc @ [c], ds)
            | None \<Rightarrow> match_text (acc @ [c]) cs))"

definition parse_location_pattern :: "string \<Rightarrow> string \<times> int" where
  "parse_location_pattern pattern =
     (case pattern of
        [] \<Rightarrow> (pattern, 1)
      | c # cs \<Rightarrow>
          if c = CHR ''('' then
            (case match_text [] cs of
               Some (text, ds) \<Rightarrow> (text, int_of_digits ds)
             | None \<Rightarrow> (pattern, 1))
          else (pattern, 1))"

text \<open>
  The shape the regular expression accepts, written out: an opening parenthesis, a
  non-empty text without line break, \<open>)[\<close>, at least one digit, \<open>]\<close>, and anything after.
\<close>

definition anchor_shape :: "string \<Rightarrow> string \<Rightarrow> string \<Rightarrow> string \<Rightarrow> bool" where
  "anchor_shape pattern text ds rest =
     (pattern = ''('' @ text @ '')['' @ ds @ '']'' @ rest
      \<and> text \<noteq> [] \<and> NL \<notin> set text \<and> ds \<noteq> [] \<and> (\<forall>d \<in> set ds. isdigit d))"

section \<open>Text patcher (nodes/code_generator.py)\<close>

text \<open>
  The two operation models (\<open>Operation\<close> and \<open>PlantUMLOperation\<close>) have the same four
  fields and differ in the types of \<open>location\<close> and \<open>block\<close>.
\<close>

record ('l, 'b) operation_rec =
  operation :: string
  location :: 'l
  block :: 'b
  reasoning :: string

text \<open>
  \<open>PlantUMLOperation.location\<close> is \<open>Union[str, PlantUMLLocation]\<close>; the operation kind is
  any string.
\<close>

datatype location = LocStr string | LocObj (after_line: string) (before_line: string)

type_synonym plantuml_operation = "(location, string) operation_rec"

datatype error = ValueError | TypeError | AttributeError | IndexError | KeyError

text \<open>
  The search loop of the delete branch: the first \<open>i\<close> in
  \<open>range(len(code_lines) - len(block_lines) + 1)\<close> with
  \<open>code_lines[i:i+len(block_lines)] == block_lines\<close>.
\<close>

definition find_block :: "string list \<Rightarrow> string list \<Rightarrow> nat option" where
  "find_block code_lines block_lines =
     find (\<lambda>i. take (length block_lines) (drop i code_lines) = block_lines)
       [0..<nat (int (length code_lines) - int (length block_lines) + 1)]"

text \<open>\<open>CodeGenerator._apply_operation\<close>, called with a location object.\<close>

definition apply_operation :: "string \<Rightarrow> string \<Rightarrow> string \<Rightarrow> string \<Rightarrow> string \<Rightarrow> string" where
  "apply_operation code opn after_ln before_ln blk =
     (if opn = ''add'' then
        (let (after_pattern, after_occurrence) = parse_location_pattern after_ln;
             (before_pattern, before_occurrence) = parse_location_pattern before_ln;
             lines = split_nl code;
             after_idx = find_line_index lines after_pattern after_occurrence;
             before_idx = find_line_index lines before_pattern before_occurrence
         in if after_idx = - 1 then code @ [NL] @ blk
            else
              (let before_idx = (if before_idx = - 1 then int (length lines) else before_idx);
                   insertion_idx = after_idx + 1
               in join_nl (py_insert lines insertion_idx blk)))
      else if opn = ''delete'' then
        (let block_lines = split_nl blk;
             code_lines = split_nl code
         in case find_block code_lines block_lines of
              Some i \<Rightarrow> join_nl (take i code_lines @ drop (i + length block_lines) code_lines)
            | None \<Rightarrow> code)
      else code)"

text \<open>
  The loop of \<open>CodeGenerator.apply_operations\<close>. A location that is a string other than
  \<open>root\<close> raises \<open>ValueError\<close> (invalid location type).
\<close>

fun apply_loop :: "string \<Rightarrow> plantuml_operation list \<Rightarrow> error + string" where
  "apply_loop code [] = Inr code"
| "apply_loop code (p # ops) =
     (case location p of
        LocStr l \<Rightarrow>
          if l = ''root'' then apply_loop (block p) ops else Inl ValueError
      | LocObj after_ln before_ln \<Rightarrow>
          apply_loop (apply_operation code (operation p) after_ln before_ln (block p)) ops)"

text \<open>\<open>code = previous_code if previous_code else ""\<close>, then the loop.\<close>

definition apply_operations :: "string option \<Rightarrow> plantuml_operation list \<Rightarrow> error + string" where
  "apply_operations previous_code ops =
     apply_loop (case previous_code of None \<Rightarrow> [] | Some c \<Rightarrow> c) ops"

section \<open>Validated retry executor (utils/decorators.py)\<close>

text \<open>
  A raised Python exception: \<open>Exc\<close> for an instance of \<open>Exception\<close>, which the wrapper's
  \<open>except Exception\<close> catches, \<open>BaseExc\<close> for any other (\<open>KeyboardInterrupt\<close>,
  \<open>SystemExit\<close>), which it lets through. The string is \<open>str(e)\<close>.
\<close>

datatype pyexc = Exc string | BaseExc string

text \<open>
  The decorated method and the validation method act on the outside world (the language
  model, the file system, the state object), which is threaded through as \<open>'w\<close>. Either
  may raise. The validator returns \<open>(is_valid, error_msg)\<close>.
\<close>

type_synonym ('r, 'w) func = "'w \<Rightarrow> (pyexc + 'r) \<times> 'w"

type_synonym ('r, 'w) validator = "'r \<Rightarrow> 'w \<Rightarrow> (pyexc + bool \<times> string) \<times> 'w"

text \<open>
  \<open>validation_method\<close> is absent (\<open>None\<close>), names no attribute of the object, or names
  a validator.
\<close>

datatype ('r, 'w) validation =
  NoValidation | MissingValidator | Validator "('r, 'w) validator"

text \<open>
  One pass through the body of the \<open>for\<close> loop: the method's result is returned, or an
  exception is caught (together with the validation message, when the exception is the
  \<open>ValueError\<close> the wrapper raises itself on a failed validation), or an exception that
  is no \<open>Exception\<close> escapes.
\<close>

datatype 'r attempt_result = Returned 'r | Caught pyexc "string option" | Escaped pyexc

definition handle :: "pyexc \<Rightarrow> 'r attempt_result" where
  "handle e = (case e of Exc m \<Rightarrow> Caught e None | BaseExc m \<Rightarrow> Escaped e)"

definition one_attempt ::
  "('r, 'w) func \<Rightarrow> ('r, 'w) validation \<Rightarrow> 'w \<Rightarrow> 'r attempt_result \<times> 'w" where
  "one_attempt f v w =
     (case f w of
        (Inl e, w1) \<Rightarrow> (handle e, w1)
      | (Inr result_state, w1) \<Rightarrow>
          (case v of
             NoValidation \<Rightarrow> (Returned result_state, w1)
           | MissingValidator \<Rightarrow> (Returned result_state, w1)
           | Validator validator \<Rightarrow>
               (case validator result_state w1 of
                  (Inl e, w2) \<Rightarrow> (handle e, w2)
                | (Inr (is_valid, error_msg), w2) \<Rightarrow>
                    if is_valid then (Returned result_state, w2)
                    else (Caught (Exc (''Validation failed: '' @ error_msg)) (Some error_msg),
                          w2))))"

text \<open>
  The loop over \<open>range(1, max_retries + 1)\<close>. Its result carries the world and the
  attempt numbers printed on the \<open>Attempt k/max\<close> lines, one for each call of the method.
\<close>

datatype 'r loop_result =
  Return 'r | Propagate pyexc | Exhausted "pyexc option" "string option"

fun retry_loop ::
  "('r, 'w) func \<Rightarrow> ('r, 'w) validation \<Rightarrow> int list \<Rightarrow> pyexc option \<Rightarrow> string option \<Rightarrow> 'w
     \<Rightarrow> 'r loop_result \<times> 'w \<times> int list" where
  "retry_loop f v [] last_error last_validation_error w =
     (Exhausted last_error last_validation_error, w, [])"
| "retry_loop f v (attempt # rest) last_error last_validation_error w =
     (case one_attempt f v w of
        (Returned r, w1) \<Rightarrow> (Return r, w1, [attempt])
      | (Escaped e, w1) \<Rightarrow> (Propagate e, w1, [attempt])
      | (Caught e vm, w1) \<Rightarrow>
          (case retry_loop f v rest (Some e)
                  (case vm of Some m \<Rightarrow> Some m | None \<Rightarrow> last_validation_error) w1 of
             (res, w2, log) \<Rightarrow> (res, w2, attempt # log)))"

text \<open>\<open>str\<close> of an integer, and of an exception or \<open>None\<close>.\<close>

fun str_nat :: "nat \<Rightarrow> string" where
  "str_nat n =
     (if n < 10 then [''0123456789'' ! n]
      else str_nat (n div 10) @ [''0123456789'' ! (n mod 10)])"

declare str_nat.simps [simp del]

definition str_int :: "int \<Rightarrow> string" where
  "str_int i = (if i < 0 then ''-'' @ str_nat (nat (- i)) else str_nat (nat i))"

definition str_exc :: "pyexc option \<Rightarrow> string" where
  "str_exc e = (case e of None \<Rightarrow> ''None'' | Some (Exc m) \<Rightarrow> m | Some (BaseExc m) \<Rightarrow> m)"

text \<open>The \<open>error_details\<close> string built after the loop.\<close>

definition error_details :: "pyexc option \<Rightarrow> string option \<Rightarrow> string" where
  "error_details last_error last_validation_error =
     ''Last error: '' @ str_exc last_error @
     (case last_validation_error of
        None \<Rightarrow> []
      | Some m \<Rightarrow> if m = [] then [] else '' | Validation error: '' @ m)"

text \<open>The wrapper: the loop, then the \<open>RuntimeError\<close> when the loop runs out.\<close>

definition wrapper ::
  "string \<Rightarrow> int \<Rightarrow> ('r, 'w) func \<Rightarrow> ('r, 'w) validation \<Rightarrow> 'w \<Rightarrow> (pyexc + 'r) \<times> 'w \<times> int list" where
  "wrapper name max_retries f v w =
     (case retry_loop f v [1..max_retries] None None w of
        (Return r, w1, log) \<Rightarrow> (Inr r, w1, log)
      | (Propagate e, w1, log) \<Rightarrow> (Inl e, w1, log)
      | (Exhausted last_error last_validation_error, w1, log) \<Rightarrow>
          (Inl (Exc (''['' @ name @ ''] Failed after '' @ str_int max_retries @ '' attempts. ''
                     @ error_details last_error last_validation_error)),
           w1, log))"

text \<open>
  The notion the specification of the executor is stated in: the first \<open>n\<close> attempts from the world
  \<open>w\<close> all fail (by an exception that is caught or by a failed validation); the result is
  the caught exceptions with their validation messages, and the world reached.
\<close>

fun failed_attempts ::
  "('r, 'w) func \<Rightarrow> ('r, 'w) validation \<Rightarrow> nat \<Rightarrow> 'w \<Rightarrow> ((pyexc \<times> string option) list \<times> 'w) option" where
  "failed_attempts f v 0 w = Some ([], w)"
| "failed_attempts f v (Suc n) w =
     (case one_attempt f v w of
        (Caught e vm, w1) \<Rightarrow>
          (case failed_attempts f v n w1 of
             Some (fs, w2) \<Rightarrow> Some ((e, vm) # fs, w2)
           | None \<Rightarrow> None)
      | _ \<Rightarrow> None)"

definition last_raised :: "(pyexc \<times> string option) list \<Rightarrow> pyexc option" where
  "last_raised fs = (if fs = [] then None else Some (fst (last fs)))"

definition reasons :: "(pyexc \<times> string option) list \<Rightarrow> string list" where
  "reasons fs = concat (map (\<lambda>(e, vm). case vm of None \<Rightarrow> [] | Some m \<Rightarrow> [m]) fs)"

definition last_reason :: "(pyexc \<times> string option) list \<Rightarrow> string option" where
  "last_reason fs = (if reasons fs = [] then None else Some (last (reasons fs)))"

section \<open>Version ledger (driver.py, utils/db_utils.py)\<close>
















section \<open>Structural patcher (nodes/context_extractor.py)\<close>

text \<open>
  A structural document is what \<open>json.load\<close> returns. A \<open>dict\<close> is an association list in
  insertion order; a float is carried as its literal, since no operation of the patcher
  looks inside one.
\<close>

datatype json =
  JNull | JBool bool | JInt int | JFloat string | JStr string
  | JList "json list" | JDict "(string \<times> json) list"

type_synonym context_operation = "(string, json) operation_rec"

text \<open>
  The Python operations the patcher performs on the value it has navigated to, with the
  exceptions they raise when that value is not a \<open>dict\<close> (or not a \<open>list\<close>).
\<close>

text \<open>\<open>key in current\<close>, for a string \<open>key\<close>.\<close>

definition py_contains :: "json \<Rightarrow> string \<Rightarrow> error + bool" where
  "py_contains current key =
     (case current of
        JDict kvs \<Rightarrow> Inr (map_of kvs key \<noteq> None)
      | JList xs \<Rightarrow> Inr (JStr key \<in> set xs)
      | JStr s \<Rightarrow> Inr (sublist key s)
      | _ \<Rightarrow> Inl TypeError)"

text \<open>\<open>current[key]\<close>, for a string \<open>key\<close>.\<close>

definition py_getitem :: "json \<Rightarrow> string \<Rightarrow> error + json" where
  "py_getitem current key =
     (case current of
        JDict kvs \<Rightarrow> (case map_of kvs key of Some x \<Rightarrow> Inr x | None \<Rightarrow> Inl KeyError)
      | _ \<Rightarrow> Inl TypeError)"

text \<open>\<open>current[key] = x\<close>: a new key goes to the end, a known key keeps its place.\<close>

definition py_setitem :: "json \<Rightarrow> string \<Rightarrow> json \<Rightarrow> error + json" where
  "py_setitem current key x =
     (case current of
        JDict kvs \<Rightarrow> Inr (JDict (AList.update key x kvs))
      | _ \<Rightarrow> Inl TypeError)"

text \<open>\<open>del current[key]\<close>.\<close>

definition py_delitem :: "json \<Rightarrow> string \<Rightarrow> error + json" where
  "py_delitem current key =
     (case current of
        JDict kvs \<Rightarrow>
          (if map_of kvs key = None then Inl KeyError else Inr (JDict (AList.delete key kvs)))
      | _ \<Rightarrow> Inl TypeError)"

text \<open>\<open>len(c)\<close>.\<close>

definition py_len :: "json \<Rightarrow> error + nat" where
  "py_len c =
     (case c of
        JList xs \<Rightarrow> Inr (length xs)
      | JStr s \<Rightarrow> Inr (length s)
      | JDict kvs \<Rightarrow> Inr (length kvs)
      | _ \<Rightarrow> Inl TypeError)"

text \<open>\<open>c[n]\<close> for an integer \<open>n\<close> with \<open>0 <= n < len(c)\<close>.\<close>

definition py_getitem_int :: "json \<Rightarrow> nat \<Rightarrow> error + json" where
  "py_getitem_int c n =
     (case c of
        JList xs \<Rightarrow> (if n < length xs then Inr (xs ! n) else Inl IndexError)
      | JStr s \<Rightarrow> (if n < length s then Inr (JStr [s ! n]) else Inl IndexError)
      | JDict kvs \<Rightarrow> Inl KeyError
      | _ \<Rightarrow> Inl TypeError)"

text \<open>\<open>c.append(x)\<close> and \<open>c.insert(n, x)\<close>: only a list has these methods.\<close>

definition py_append :: "json \<Rightarrow> json \<Rightarrow> error + json" where
  "py_append c x = (case c of JList xs \<Rightarrow> Inr (JList (xs @ [x])) | _ \<Rightarrow> Inl AttributeError)"

definition py_list_insert :: "json \<Rightarrow> nat \<Rightarrow> json \<Rightarrow> error + json" where
  "py_list_insert c n x =
     (case c of
        JList xs \<Rightarrow> Inr (JList (py_insert xs (int n) x))
      | _ \<Rightarrow> Inl AttributeError)"

subsection \<open>Path addressing\<close>

text \<open>
  A step of a path is a key with no index, the index \<open>end\<close>, or a number. The number
  comes from \<open>int\<close> on a match of \<open>\d+\<close> and is never negative.
\<close>

datatype index = IdxEnd | IdxNum nat

type_synonym part = "string \<times> index option"

text \<open>
  The optional group \<open>(?:\[(\d+|end)\])?\<close> at the start of what follows the key: group 2
  when the group matches, and no index when it does not.
\<close>

definition match_bracket :: "string \<Rightarrow> index option" where
  "match_bracket rest =
     (case rest of
        [] \<Rightarrow> None
      | c # r \<Rightarrow>
          if c = CHR ''['' then
            (if takeWhile isdigit r \<noteq> [] \<and> startswith (dropWhile isdigit r) (CHR '']'')
             then Some (IdxNum (nat (int_of_digits (takeWhile isdigit r))))
             else if prefix ''end]'' r then Some IdxEnd
             else None)
          else None)"

text \<open>
  \<open>re.match(r'([^\[]+)(?:\[(\d+|end)\])?', token)\<close>: the key is the longest run of
  characters other than \<open>[\<close> at the start of the token; there is no match when that run
  is empty. Whatever follows the optional group is ignored.
\<close>

definition parse_token :: "string \<Rightarrow> part option" where
  "parse_token token =
     (let key = takeWhile (\<lambda>c. c \<noteq> CHR ''['') token;
          rest = dropWhile (\<lambda>c. c \<noteq> CHR ''['') token
      in if key = [] then None else Some (key, match_bracket rest))"

text \<open>The loop that fills \<open>parts\<close>: a token without match adds nothing.\<close>

definition parse_location :: "string \<Rightarrow> part list" where
  "parse_location loc =
     concat (map (\<lambda>token. case parse_token token of None \<Rightarrow> [] | Some p \<Rightarrow> [p])
               (split_on (CHR ''.'') loc))"

subsection \<open>Applying one operation\<close>

text \<open>\<open>if key not in current: current[key] = dflt\<close>.\<close>

definition ensure_key :: "json \<Rightarrow> string \<Rightarrow> json \<Rightarrow> error + json" where
  "ensure_key current key dflt =
     (case py_contains current key of
        Inl e \<Rightarrow> Inl e
      | Inr present \<Rightarrow> if present then Inr current else py_setitem current key dflt)"

text \<open>\<open>while len(c) <= n: c.append({})\<close>, entered with \<open>len(c) <= n\<close>.\<close>

definition pad_to :: "json \<Rightarrow> nat \<Rightarrow> error + json" where
  "pad_to c n =
     (case c of
        JList xs \<Rightarrow> Inr (JList (xs @ replicate (Suc n - length xs) (JDict [])))
      | _ \<Rightarrow> Inl AttributeError)"

text \<open>
  The step \<open>current = current[key][index]\<close> moves to an element of the list \<open>c\<close>; what is
  done to that element afterwards is done to the list. A string \<open>c\<close> yields a fresh
  one-character string instead, and nothing is written back.
\<close>

definition write_back :: "json \<Rightarrow> string \<Rightarrow> json \<Rightarrow> nat \<Rightarrow> json \<Rightarrow> error + json" where
  "write_back current key c n child =
     (case c of
        JList xs \<Rightarrow> py_setitem current key (JList (xs[n := child]))
      | _ \<Rightarrow> Inr current)"

text \<open>The branch on the operation at the target, for the last step of the path.\<close>

definition apply_target :: "json \<Rightarrow> string \<Rightarrow> string \<Rightarrow> index option \<Rightarrow> json \<Rightarrow> error + json" where
  "apply_target current opn last_key last_index payload =
     (if opn = ''add'' then
        (case last_index of
           None \<Rightarrow> py_setitem current last_key payload
         | Some idx \<Rightarrow>
             (case ensure_key current last_key (JList []) of
                Inl e \<Rightarrow> Inl e
              | Inr current1 \<Rightarrow>
                  (case py_getitem current1 last_key of
                     Inl e \<Rightarrow> Inl e
                   | Inr c \<Rightarrow>
                       (case idx of
                          IdxEnd \<Rightarrow>
                            (case py_append c payload of
                               Inl e \<Rightarrow> Inl e
                             | Inr c' \<Rightarrow> py_setitem current1 last_key c')
                        | IdxNum n \<Rightarrow>
                            (case py_len c of
                               Inl e \<Rightarrow> Inl e
                             | Inr len \<Rightarrow>
                                 if n \<le> len then
                                   (case py_list_insert c n payload of
                                      Inl e \<Rightarrow> Inl e
                                    | Inr c' \<Rightarrow> py_setitem current1 last_key c')
                                 else Inr current1)))))
      else if opn = ''delete'' then
        (case last_index of
           None \<Rightarrow>
             (case py_contains current last_key of
                Inl e \<Rightarrow> Inl e
              | Inr present \<Rightarrow>
                  if present then py_delitem current last_key else Inr current)
         | Some idx \<Rightarrow>
             (case py_contains current last_key of
                Inl e \<Rightarrow> Inl e
              | Inr present \<Rightarrow>
                  if \<not> present then Inr current
                  else
                    (case py_getitem current last_key of
                       Inl e \<Rightarrow> Inl e
                     | Inr c \<Rightarrow>
                         (case c of
                            JList xs \<Rightarrow>
                              (case idx of
                                 IdxEnd \<Rightarrow> Inr current
                               | IdxNum n \<Rightarrow>
                                   if n < length xs then
                                     py_setitem current last_key
                                       (JList (take n xs @ drop (Suc n) xs))
                                   else Inr current)
                          | _ \<Rightarrow> Inr current))))
      else Inr current)"

text \<open>
  The numeric step of the navigation, on the value \<open>c\<close> found under the key: when the
  index is within \<open>len(c)\<close> the element is read, otherwise \<open>c\<close> is padded with empty
  dictionaries first. Returns \<open>c\<close> as it is afterwards and the element moved to.
\<close>

definition descend :: "json \<Rightarrow> nat \<Rightarrow> error + json \<times> json" where
  "descend c n =
     (case py_len c of
        Inl e \<Rightarrow> Inl e
      | Inr len \<Rightarrow>
          (case (if n < len then Inr c else pad_to c n) of
             Inl e \<Rightarrow> Inl e
           | Inr c1 \<Rightarrow>
               (case py_getitem_int c1 n of
                  Inl e \<Rightarrow> Inl e
                | Inr child \<Rightarrow> Inr (c1, child))))"

text \<open>
  Navigation and the operation at the target, on the steps that are left. The result is
  the value navigated from, as the mutations in place leave it. With no step at all,
  \<open>parts[-1]\<close> raises \<open>IndexError\<close>.
\<close>

fun apply_parts :: "json \<Rightarrow> part list \<Rightarrow> string \<Rightarrow> json \<Rightarrow> error + json" where
  "apply_parts current [] opn payload = Inl IndexError"
| "apply_parts current [(last_key, last_index)] opn payload =
     apply_target current opn last_key last_index payload"
| "apply_parts current ((key, None) # p # ps) opn payload =
     (case ensure_key current key (JDict []) of
        Inl e \<Rightarrow> Inl e
      | Inr current1 \<Rightarrow>
          (case py_getitem current1 key of
             Inl e \<Rightarrow> Inl e
           | Inr child \<Rightarrow>
               (case apply_parts child (p # ps) opn payload of
                  Inl e \<Rightarrow> Inl e
                | Inr child' \<Rightarrow> py_setitem current1 key child')))"
| "apply_parts current ((key, Some IdxEnd) # p # ps) opn payload =
     (case ensure_key current key (JList []) of
        Inl e \<Rightarrow> Inl e
      | Inr current1 \<Rightarrow> apply_parts current1 (p # ps) opn payload)"
| "apply_parts current ((key, Some (IdxNum n)) # p # ps) opn payload =
     (case ensure_key current key (JList []) of
        Inl e \<Rightarrow> Inl e
      | Inr current1 \<Rightarrow>
          (case py_getitem current1 key of
             Inl e \<Rightarrow> Inl e
           | Inr c \<Rightarrow>
               (case descend c n of
                  Inl e \<Rightarrow> Inl e
                | Inr (c1, child) \<Rightarrow>
                    (case apply_parts child (p # ps) opn payload of
                       Inl e \<Rightarrow> Inl e
                     | Inr child' \<Rightarrow>
                         (case py_setitem current1 key c1 of
                            Inl e \<Rightarrow> Inl e
                          | Inr current2 \<Rightarrow> write_back current2 key c1 n child')))))"

text \<open>\<open>ContextExtractor._apply_operation\<close>.\<close>

definition ctx_apply_operation :: "json \<Rightarrow> string \<Rightarrow> string \<Rightarrow> json \<Rightarrow> error + json" where
  "ctx_apply_operation context opn loc payload =
     apply_parts context (parse_location loc) opn payload"

subsection \<open>Payload normalisation and the batch\<close>

text \<open>
  \<open>parse_block_value\<close>. \<open>json.loads\<close> belongs to the standard library and is a parameter:
  \<open>loads s\<close> is the parsed value, or \<open>None\<close> when it raises \<open>JSONDecodeError\<close>.
\<close>

definition looks_like_json :: "string \<Rightarrow> bool" where
  "looks_like_json s =
     (let stripped = strip s
      in (startswith stripped (CHR ''{'') \<and> endswith stripped (CHR ''}''))
         \<or> (startswith stripped (CHR ''['') \<and> endswith stripped (CHR '']'')))"

definition parse_block_value :: "(string \<Rightarrow> json option) \<Rightarrow> json \<Rightarrow> json" where
  "parse_block_value loads blk =
     (case blk of
        JStr s \<Rightarrow>
          if looks_like_json s then
            (case loads s of Some parsed \<Rightarrow> parsed | None \<Rightarrow> blk)
          else blk
      | _ \<Rightarrow> blk)"

definition is_dict :: "json \<Rightarrow> bool" where
  "is_dict x = (case x of JDict kvs \<Rightarrow> True | _ \<Rightarrow> False)"

text \<open>
  The loop of \<open>ContextExtractor.apply_operations\<close>. A \<open>root\<close> operation whose parsed block
  is not a \<open>dict\<close> raises \<open>ValueError\<close>.
\<close>

fun ctx_apply_loop ::
  "(string \<Rightarrow> json option) \<Rightarrow> json \<Rightarrow> context_operation list \<Rightarrow> error + json" where
  "ctx_apply_loop loads context [] = Inr context"
| "ctx_apply_loop loads context (p # ops) =
     (let parsed_block = parse_block_value loads (block p)
      in if location p = ''root'' then
           (if \<not> is_dict parsed_block then Inl ValueError
            else ctx_apply_loop loads parsed_block ops)
         else
           (case ctx_apply_operation context (operation p) (location p) parsed_block of
              Inl e \<Rightarrow> Inl e
            | Inr context' \<Rightarrow> ctx_apply_loop loads context' ops))"

text \<open>\<open>context = previous_context.copy() if previous_context else {}\<close>, then the loop.\<close>

definition ctx_apply_operations ::
  "(string \<Rightarrow> json option) \<Rightarrow> (string \<times> json) list option \<Rightarrow> context_operation list
     \<Rightarrow> error + json" where
  "ctx_apply_operations loads previous_context ops =
     ctx_apply_loop loads
       (case previous_context of None \<Rightarrow> JDict [] | Some kvs \<Rightarrow> JDict kvs) ops"

text \<open>
  The notion the round-trip property is stated in: a path resolves in a document when every
  step before the last finds what it looks for (the key is there; under a numeric index
  there is a list that long; nothing is created or padded), and the last step names
  either a key that is absent, with no index, or a numeric position of a list that is
  there.
\<close>

fun resolves :: "json \<Rightarrow> part list \<Rightarrow> bool" where
  "resolves current [] = False"
| "resolves current [(k, idx)] =
     (case current of
        JDict kvs \<Rightarrow>
          (case idx of
             None \<Rightarrow> map_of kvs k = None
           | Some IdxEnd \<Rightarrow> False
           | Some (IdxNum n) \<Rightarrow>
               (case map_of kvs k of Some (JList xs) \<Rightarrow> True | _ \<Rightarrow> False))
      | _ \<Rightarrow> False)"
| "resolves current ((k, idx) # p # ps) =
     (case current of
        JDict kvs \<Rightarrow>
          (case map_of kvs k of
             None \<Rightarrow> False
           | Some c \<Rightarrow>
               (case idx of
                  None \<Rightarrow> resolves c (p # ps)
                | Some IdxEnd \<Rightarrow> resolves current (p # ps)
                | Some (IdxNum n) \<Rightarrow>
                    (case c of
                       JList xs \<Rightarrow> n < length xs \<and> resolves (xs ! n) (p # ps)
                     | _ \<Rightarrow> False)))
      | _ \<Rightarrow> False)"

text \<open>
  What payload normalisation takes from the JSON grammar: a text that
  parses and begins with a brace is an object, one that begins with a square bracket is
  an array.
\<close>

definition is_list :: "json \<Rightarrow> bool" where
  "is_list x = (case x of JList xs \<Rightarrow> True | _ \<Rightarrow> False)"

definition json_grammar :: "(string \<Rightarrow> json option) \<Rightarrow> bool" where
  "json_grammar loads =
     (\<forall>s v. loads s = Some v \<longrightarrow>
        (startswith (strip s) (CHR ''{'') \<longrightarrow> is_dict v)
        \<and> (startswith (strip s) (CHR ''['') \<longrightarrow> is_list v))"

section \<open>Properties of line pattern addressing\<close>

lemma re_search_escaped_sublist: "re_search_escaped p l = sublist p l"
  by (induction l) (simp_all add: sublist_Cons_right)

lemma match_positions_Nil: "match_positions P [] = []"
  by (simp add: match_positions_def)

lemma match_positions_Cons:
  "match_positions P (l # ls) =
     (if P l then [0] else []) @ map Suc (match_positions P ls)"
proof -
  have "[0..<length (l # ls)] = 0 # map Suc [0..<length ls]"
    by (simp add: upt_conv_Cons map_Suc_upt del: upt_Suc)
  then show ?thesis
    by (simp add: match_positions_def filter_map comp_def del: upt_Suc)
qed

lemma find_loop_positions:
  "count < occurrence \<Longrightarrow>
   find_loop P ls i count occurrence =
     (if nat (occurrence - count) \<le> length (match_positions P ls)
      then i + int (match_positions P ls ! (nat (occurrence - count) - 1))
      else - 1)"
proof (induction ls arbitrary: i count)
  case Nil
  then show ?case by (simp add: match_positions_Nil)
next
  case (Cons l ls)
  show ?case
  proof (cases "P l")
    case False
    with Cons show ?thesis
      by (simp add: match_positions_Cons nth_map)
  next
    case True
    show ?thesis
    proof (cases "count + 1 = occurrence")
      case hit: True
      then have "nat (occurrence - count) = 1" by simp
      with True hit show ?thesis
        by (simp add: match_positions_Cons)
    next
      case miss: False
      with Cons.prems have lt: "count + 1 < occurrence" by simp
      define k where "k = nat (occurrence - count) - 2"
      have k: "nat (occurrence - count) = Suc (Suc k)"
        using lt by (simp add: k_def)
      have k': "nat (occurrence - (count + 1)) = Suc k"
        using lt by (simp add: k_def)
      from True miss show ?thesis
        using Cons.IH [OF lt, of "i + 1"]
        by (simp add: match_positions_Cons k k' nth_map)
    qed
  qed
qed

text \<open>
  C6. For every list of lines, every pattern and every occurrence \<open>n \<ge> 1\<close>,
  \<open>_find_line_index\<close> returns the 0-indexed position of the \<open>n\<close>-th line that contains the
  pattern as a literal substring (for the pattern \<open>EMPTY_LINE\<close>: the \<open>n\<close>-th line whose
  stripped content is empty) when the document has at least \<open>n\<close> such lines, and \<open>-1\<close>
  (not found) when it has fewer.
\<close>

theorem find_line_index_nth_match:
  assumes "1 \<le> n"
  shows "find_line_index lines pattern n =
     (if nat n \<le> length (match_positions (line_matches pattern) lines)
      then int (match_positions (line_matches pattern) lines ! (nat n - 1))
      else - 1)"
proof -
  have P: "line_matches pattern =
      (if pattern = ''EMPTY_LINE'' then (\<lambda>line. strip line = [])
       else re_search_escaped pattern)"
    by (rule ext) (simp add: line_matches_def re_search_escaped_sublist)
  from assms have "0 < n" by simp
  then show ?thesis
    using find_loop_positions [of 0 n]
    by (simp add: find_line_index_def P)
qed

theorem find_line_index_nth_match_witness:
  "(1::int) \<le> 2 \<and> find_line_index [''a'', ''xbx'', ''b''] ''b'' 2 = 2"
  using find_line_index_nth_match [of 2 "[''a'', ''xbx'', ''b'']" "''b''"]
  by (simp add: match_positions_def line_matches_def sublist_Cons_right)

lemma not_isdigit_bracket: "\<not> isdigit (CHR '']'')"
  by (simp add: isdigit_def)

lemma match_index_shape:
  "ds \<noteq> [] \<Longrightarrow> \<forall>d \<in> set ds. isdigit d \<Longrightarrow>
   match_index ('')['' @ ds @ '']'' @ rest) = Some ds"
proof -
  assume a: "ds \<noteq> []" "\<forall>d \<in> set ds. isdigit d"
  have t: "takeWhile isdigit (ds @ CHR '']'' # rest) = ds"
    using a(2) by (simp add: takeWhile_append2 not_isdigit_bracket)
  have d: "dropWhile isdigit (ds @ CHR '']'' # rest) = CHR '']'' # rest"
    using a(2) by (simp add: dropWhile_append2 not_isdigit_bracket)
  show ?thesis
    using a(1) by (simp add: match_index_def t d startswith_def)
qed

lemma match_text_complete:
  "text \<noteq> [] \<Longrightarrow> NL \<notin> set text \<Longrightarrow> ds \<noteq> [] \<Longrightarrow> \<forall>d \<in> set ds. isdigit d \<Longrightarrow>
   match_text acc (text @ '')['' @ ds @ '']'' @ rest) \<noteq> None"
proof (induction "text" arbitrary: acc)
  case Nil then show ?case by simp
next
  case (Cons c t)
  show ?case
  proof (cases "t = []")
    case True
    with Cons.prems show ?thesis
      using match_index_shape [of ds rest] by simp
  next
    case False
    with Cons.prems Cons.IH [of "acc @ [c]"]
    have "match_text (acc @ [c]) (t @ '')['' @ ds @ '']'' @ rest) \<noteq> None" by simp
    with Cons.prems show ?thesis
      by (cases "match_index (t @ '')['' @ ds @ '']'' @ rest)") auto
  qed
qed

lemma match_index_sound:
  "match_index s = Some ds \<Longrightarrow>
   \<exists>rest. s = '')['' @ ds @ '']'' @ rest \<and> ds \<noteq> [] \<and> (\<forall>d \<in> set ds. isdigit d)"
proof -
  assume m: "match_index s = Some ds"
  then obtain r where s: "s = CHR '')'' # CHR ''['' # r"
    and ds: "ds = takeWhile isdigit r" "ds \<noteq> []"
    and st: "startswith (dropWhile isdigit r) (CHR '']'')"
    by (auto simp: match_index_def split: list.splits if_splits)
  from st obtain rest where "dropWhile isdigit r = CHR '']'' # rest"
    by (auto simp: startswith_def split: list.splits)
  then have "r = ds @ CHR '']'' # rest"
    using ds(1) takeWhile_dropWhile_id [of isdigit r] by simp
  moreover have "\<forall>d \<in> set ds. isdigit d"
    using ds(1) by (auto dest: set_takeWhileD)
  ultimately show ?thesis using s ds(2) by auto
qed

lemma match_text_sound:
  "match_text acc cs = Some (t, ds) \<Longrightarrow>
   \<exists>text rest. t = acc @ text \<and> cs = text @ '')['' @ ds @ '']'' @ rest
      \<and> text \<noteq> [] \<and> NL \<notin> set text \<and> ds \<noteq> [] \<and> (\<forall>d \<in> set ds. isdigit d)"
proof (induction cs arbitrary: acc)
  case Nil then show ?case by simp
next
  case (Cons c cs)
  from Cons.prems have c: "c \<noteq> NL" by (auto split: if_splits)
  show ?case
  proof (cases "match_index cs")
    case (Some ds')
    with Cons.prems c have e: "t = acc @ [c]" "ds' = ds" by auto
    from match_index_sound [OF Some] e obtain rest where
      "cs = '')['' @ ds @ '']'' @ rest" "ds \<noteq> []" "\<forall>d \<in> set ds. isdigit d" by auto
    with e c show ?thesis
      by (intro exI [of _ "[c]"] exI [of _ rest]) simp
  next
    case None
    with Cons.prems c have "match_text (acc @ [c]) cs = Some (t, ds)" by simp
    from Cons.IH [OF this] obtain text' rest where
      h: "t = (acc @ [c]) @ text'" "cs = text' @ '')['' @ ds @ '']'' @ rest"
         "text' \<noteq> []" "NL \<notin> set text'" "ds \<noteq> []" "\<forall>d \<in> set ds. isdigit d" by blast
    with c show ?thesis
      by (intro exI [of _ "c # text'"] exI [of _ rest]) simp
  qed
qed

lemma parse_location_pattern_cases:
  "parse_location_pattern pattern = (pattern, 1) \<or>
   (\<exists>text ds rest. anchor_shape pattern text ds rest
       \<and> parse_location_pattern pattern = (text, int_of_digits ds))"
proof (cases pattern)
  case Nil then show ?thesis by (simp add: parse_location_pattern_def)
next
  case (Cons c cs)
  show ?thesis
  proof (cases "c = CHR ''(''")
    case False
    with Cons show ?thesis by (simp add: parse_location_pattern_def)
  next
    case True
    show ?thesis
    proof (cases "match_text [] cs")
      case None
      with True Cons show ?thesis by (simp add: parse_location_pattern_def)
    next
      case (Some r)
      obtain t ds where r: "r = (t, ds)" by (cases r)
      from match_text_sound [OF Some [unfolded r]] obtain rest where
        "cs = t @ '')['' @ ds @ '']'' @ rest" "t \<noteq> []" "NL \<notin> set t" "ds \<noteq> []"
        "\<forall>d \<in> set ds. isdigit d" by auto
      with True Cons Some r have "anchor_shape pattern t ds rest"
        "parse_location_pattern pattern = (t, int_of_digits ds)"
        by (simp_all add: anchor_shape_def parse_location_pattern_def)
      then show ?thesis by blast
    qed
  qed
qed

lemma anchor_shape_parsed:
  assumes "anchor_shape pattern text ds rest"
  shows "parse_location_pattern pattern \<noteq> (pattern, 1)"
proof -
  from assms have p: "pattern = CHR ''('' # text @ '')['' @ ds @ '']'' @ rest"
    and c: "text \<noteq> []" "NL \<notin> set text" "ds \<noteq> []" "\<forall>d \<in> set ds. isdigit d"
    by (simp_all add: anchor_shape_def)
  from match_text_complete [OF c, of "[]" rest] obtain t ds' where
    m: "match_text [] (text @ '')['' @ ds @ '']'' @ rest) = Some (t, ds')" by auto
  from match_text_sound [OF m] obtain rest' where
    "text @ '')['' @ ds @ '']'' @ rest = t @ '')['' @ ds' @ '']'' @ rest'" by auto
  then have "length t < length pattern"
    using p by (metis length_append length_Cons less_Suc_eq_le le_add1)
  moreover have "parse_location_pattern pattern = (t, int_of_digits ds')"
    using p m by (simp add: parse_location_pattern_def)
  ultimately show ?thesis by auto
qed


text \<open>
  C10 (as amended). \<open>_parse_location_pattern\<close> has no failure branch, and every anchor
  string that does not begin with \<open>(text)[digits]\<close> (a non-empty text without line break,
  at least one decimal digit) is returned whole as a literal pattern with occurrence 1.
\<close>

theorem parse_location_pattern_fallback:
  assumes "\<not> (\<exists>text ds rest. anchor_shape pattern text ds rest)"
  shows "parse_location_pattern pattern = (pattern, 1)"
  using parse_location_pattern_cases [of pattern] assms by blast

theorem parse_location_pattern_fallback_witness:
  "\<not> (\<exists>text ds rest. anchor_shape ''(a)[x]'' text ds rest)
   \<and> parse_location_pattern ''(a)[x]'' = (''(a)[x]'', 1)"
proof -
  have "parse_location_pattern ''(a)[x]'' = (''(a)[x]'', 1)"
    by (simp add: parse_location_pattern_def match_index_def isdigit_def startswith_def)
  then have h: "\<not> (\<exists>text ds rest. anchor_shape ''(a)[x]'' text ds rest)"
    using anchor_shape_parsed [of "''(a)[x]''"] by blast
  show ?thesis using h parse_location_pattern_fallback [OF h] by simp
qed

text \<open>
  C10 as the specification states it fails: \<open>(a)[0]\<close> is not of the form \<open>(text)[n]\<close> with a positive
  \<open>n\<close>, and it is not returned whole with occurrence 1; it is parsed to the text \<open>a\<close> with
  occurrence 0.
\<close>

theorem parse_location_pattern_zero_counterexample:
  "parse_location_pattern ''(a)[0]'' = (''a'', 0)
   \<and> parse_location_pattern ''(a)[0]'' \<noteq> (''(a)[0]'', 1)"
  by (simp add: parse_location_pattern_def match_index_def isdigit_def startswith_def
      int_of_digits_def)

section \<open>Properties of the text patcher\<close>

lemma split_nl_nonempty: "split_nl s \<noteq> []"
  by (induction s) (auto split: list.splits)

lemma join_split: "join_nl (split_nl s) = s"
proof (induction s)
  case Nil show ?case by simp
next
  case (Cons c cs)
  obtain l ls where e: "split_nl cs = l # ls" using split_nl_nonempty by (cases "split_nl cs") auto
  with Cons show ?case by (cases ls) auto
qed

lemma join_nl_Cons: "ys \<noteq> [] \<Longrightarrow> join_nl (l # ys) = l @ NL # join_nl ys"
  by (cases ys) simp_all

lemma join_nl_append:
  "xs \<noteq> [] \<Longrightarrow> ys \<noteq> [] \<Longrightarrow> join_nl (xs @ ys) = join_nl xs @ NL # join_nl ys"
  by (induction xs rule: join_nl.induct) (simp_all add: join_nl_Cons)

lemma split_nl_no_NL: "NL \<notin> set s \<Longrightarrow> split_nl s = [s]"
  by (induction s) auto

lemma split_nl_lines_no_NL: "l \<in> set (split_nl s) \<Longrightarrow> NL \<notin> set l"
proof (induction s arbitrary: l)
  case Nil then show ?case by simp
next
  case (Cons c cs)
  obtain x xs where e: "split_nl cs = x # xs" using split_nl_nonempty by (cases "split_nl cs") auto
  with Cons show ?case by (auto split: if_splits)
qed

lemma split_nl_append: "split_nl (a @ NL # b) = split_nl a @ split_nl b"
proof (induction a)
  case Nil show ?case by simp
next
  case (Cons c cs)
  obtain x xs where e: "split_nl cs = x # xs" using split_nl_nonempty by (cases "split_nl cs") auto
  with Cons show ?case by auto
qed

lemma split_nl_join: "xs \<noteq> [] \<Longrightarrow> split_nl (join_nl xs) = concat (map split_nl xs)"
proof (induction xs rule: join_nl.induct)
  case (3 l l' ls)
  then show ?case by (simp add: split_nl_append del: join_nl.simps(3)) (simp add: split_nl_append)
qed simp_all

lemma concat_split_nl_lines:
  "\<forall>l \<in> set xs. NL \<notin> set l \<Longrightarrow> concat (map split_nl xs) = xs"
  by (induction xs) (simp_all add: split_nl_no_NL)

lemma find_loop_range:
  "find_loop P ls i c n = r \<Longrightarrow> r \<noteq> - 1 \<Longrightarrow> 0 \<le> i \<Longrightarrow> i \<le> r \<and> r < i + int (length ls)"
proof (induction ls arbitrary: i c)
  case Nil then show ?case by simp
next
  case (Cons l ls)
  show ?case
  proof (cases "P l \<and> c + 1 = n")
    case True
    with Cons.prems show ?thesis by simp
  next
    case False
    then have "find_loop P ls (i + 1) (if P l then c + 1 else c) n = r"
      using Cons.prems(1) by (auto split: if_splits)
    from Cons.IH [OF this] Cons.prems show ?thesis by simp
  qed
qed

lemma find_line_index_range:
  "find_line_index ls p n = r \<Longrightarrow> r \<noteq> - 1 \<Longrightarrow> 0 \<le> r \<and> r < int (length ls)"
  unfolding find_line_index_def
  using find_loop_range [of _ ls 0 0 n r]
  by (auto split: if_splits)

lemma py_insert_inside:
  "0 \<le> i \<Longrightarrow> i \<le> int (length xs) \<Longrightarrow> py_insert xs i x = take (nat i) xs @ [x] @ drop (nat i) xs"
  by (simp add: py_insert_def Let_def min_def)

lemma find_block_Some:
  "find_block cl bl = Some i \<Longrightarrow> cl = take i cl @ bl @ drop (i + length bl) cl"
proof -
  assume "find_block cl bl = Some i"
  then have "take (length bl) (drop i cl) = bl"
    by (auto simp: find_block_def find_Some_iff)
  then have "drop i cl = bl @ drop (length bl) (drop i cl)"
    by (metis append_take_drop_id)
  then show ?thesis
    by (metis append_take_drop_id drop_drop add.commute)
qed

lemma find_block_not_sublist: "\<not> sublist bl cl \<Longrightarrow> find_block cl bl = None"
  using find_block_Some [of cl bl] by (cases "find_block cl bl") (auto simp: sublist_def)

lemma apply_loop_total:
  "\<forall>p \<in> set ops. \<forall>l. location p = LocStr l \<longrightarrow> l = ''root'' \<Longrightarrow> \<exists>r. apply_loop code ops = Inr r"
  by (induction ops arbitrary: code) (auto split: location.splits)


lemma apply_loop_append:
  "apply_loop code (pre @ post) =
     (case apply_loop code pre of Inl e \<Rightarrow> Inl e | Inr c \<Rightarrow> apply_loop c post)"
  by (induction pre arbitrary: code) (auto split: location.splits)

lemma apply_operation_add_miss:
  "find_line_index (split_nl code) (fst (parse_location_pattern after_ln))
       (snd (parse_location_pattern after_ln)) = - 1 \<Longrightarrow>
   apply_operation code ''add'' after_ln before_ln blk = code @ [NL] @ blk"
  by (simp add: apply_operation_def Let_def split_def)

lemma apply_operation_delete_miss:
  "\<not> sublist (split_nl blk) (split_nl code) \<Longrightarrow>
   apply_operation code ''delete'' after_ln before_ln blk = code"
  by (simp add: apply_operation_def Let_def find_block_not_sublist)

text \<open>
  C3. The text patcher's apply never raises on anchor or block misses. A batch whose
  locations are \<open>root\<close> or location objects always returns a document. When the batch so
  far has produced a document and the next operation is an \<open>add\<close> whose after anchor is not
  found in it, apply goes on with that document, a line break and the payload appended
  at its end. When the next operation is a \<open>delete\<close> whose payload lines do not occur as a
  contiguous run of the document's lines, apply goes on with the document unchanged.
\<close>

theorem text_patcher_absorbs_misses:
  "((\<forall>p \<in> set ops. \<forall>l. location p = LocStr l \<longrightarrow> l = ''root'')
      \<longrightarrow> (\<exists>r. apply_operations previous_code ops = Inr r))
   \<and> (apply_operations previous_code pre = Inr code
        \<and> operation p = ''add'' \<and> location p = LocObj after_ln before_ln
        \<and> find_line_index (split_nl code) (fst (parse_location_pattern after_ln))
             (snd (parse_location_pattern after_ln)) = - 1
      \<longrightarrow> apply_operations previous_code (pre @ [p]) = Inr (code @ [NL] @ block p)
          \<and> apply_operations previous_code (pre @ p # post) =
              apply_loop (code @ [NL] @ block p) post)
   \<and> (apply_operations previous_code pre = Inr code
        \<and> operation q = ''delete'' \<and> location q = LocObj after_ln before_ln
        \<and> \<not> sublist (split_nl (block q)) (split_nl code)
      \<longrightarrow> apply_operations previous_code (pre @ [q]) = Inr code
          \<and> apply_operations previous_code (pre @ q # post) = apply_loop code post)"
proof (intro conjI impI)
  assume "\<forall>p \<in> set ops. \<forall>l. location p = LocStr l \<longrightarrow> l = ''root''"
  then show "\<exists>r. apply_operations previous_code ops = Inr r"
    using apply_loop_total by (simp add: apply_operations_def)
next
  assume a: "apply_operations previous_code pre = Inr code
        \<and> operation p = ''add'' \<and> location p = LocObj after_ln before_ln
        \<and> find_line_index (split_nl code) (fst (parse_location_pattern after_ln))
             (snd (parse_location_pattern after_ln)) = - 1"
  then have s: "apply_loop code (p # post) = apply_loop (code @ [NL] @ block p) post"
    for post
    using apply_operation_add_miss [of code after_ln before_ln "block p"] by simp
  from a show "apply_operations previous_code (pre @ [p]) = Inr (code @ [NL] @ block p)"
    using s [of "[]"] by (simp add: apply_operations_def apply_loop_append [of _ pre])
  from a show "apply_operations previous_code (pre @ p # post) =
              apply_loop (code @ [NL] @ block p) post"
    using s [of post] by (simp add: apply_operations_def apply_loop_append [of _ pre])
next
  assume a: "apply_operations previous_code pre = Inr code
        \<and> operation q = ''delete'' \<and> location q = LocObj after_ln before_ln
        \<and> \<not> sublist (split_nl (block q)) (split_nl code)"
  then have s: "apply_loop code (q # post) = apply_loop code post" for post
    using apply_operation_delete_miss [of "block q" code after_ln before_ln] by simp
  from a show "apply_operations previous_code (pre @ [q]) = Inr code"
    using s [of "[]"] by (simp add: apply_operations_def apply_loop_append [of _ pre])
  from a show "apply_operations previous_code (pre @ q # post) = apply_loop code post"
    using s [of post] by (simp add: apply_operations_def apply_loop_append [of _ pre])
qed

theorem text_patcher_absorbs_misses_witness:
  "(\<exists>r. apply_operations (Some ''a'')
         [\<lparr>operation = ''delete'', location = LocObj ''(x)[1]'' ''(y)[1]'',
           block = ''zz'', reasoning = []\<rparr>] = Inr r)
   \<and> apply_operations (Some ''a'') [] = Inr ''a''
   \<and> find_line_index (split_nl ''a'') (fst (parse_location_pattern ''(x)[1]''))
         (snd (parse_location_pattern ''(x)[1]'')) = - 1
   \<and> apply_operations (Some ''a'')
         ([] @ [\<lparr>operation = ''add'', location = LocObj ''(x)[1]'' ''(y)[1]'',
                  block = ''zz'', reasoning = []\<rparr>])
       = Inr [CHR ''a'', NL, CHR ''z'', CHR ''z'']
   \<and> \<not> sublist (split_nl ''zz'') (split_nl ''a'')
   \<and> apply_operations (Some ''a'')
         ([] @ [\<lparr>operation = ''delete'', location = LocObj ''(x)[1]'' ''(y)[1]'',
                  block = ''zz'', reasoning = []\<rparr>])
       = Inr ''a''"
proof -
  let ?add = "\<lparr>operation = ''add'', location = LocObj ''(x)[1]'' ''(y)[1]'',
                block = ''zz'', reasoning = []\<rparr>"
  let ?del = "\<lparr>operation = ''delete'', location = LocObj ''(x)[1]'' ''(y)[1]'',
                block = ''zz'', reasoning = []\<rparr>"
  have p: "parse_location_pattern ''(x)[1]'' = (''x'', 1)"
    by (simp add: parse_location_pattern_def match_index_def isdigit_def startswith_def
        int_of_digits_def)
  have f: "find_line_index (split_nl ''a'') (fst (parse_location_pattern ''(x)[1]''))
         (snd (parse_location_pattern ''(x)[1]'')) = - 1"
    by (simp add: p find_line_index_def)
  have n: "\<not> sublist (split_nl ''zz'') (split_nl ''a'')"
    by (simp add: sublist_Cons_right)
  have e: "apply_operations (Some ''a'') [] = Inr ''a''"
    by (simp add: apply_operations_def)
  have t: "\<exists>r. apply_operations (Some ''a'') [?del] = Inr r"
    using text_patcher_absorbs_misses [of "[?del]" "Some ''a''"] by simp
  have A: "apply_operations (Some ''a'') ([] @ [?add]) = Inr [CHR ''a'', NL, CHR ''z'', CHR ''z'']"
    using text_patcher_absorbs_misses
      [of "[]" "Some ''a''" "[]" "''a''" ?add "''(x)[1]''" "''(y)[1]''" "[]" ?del] e f
    by simp
  have D: "apply_operations (Some ''a'') ([] @ [?del]) = Inr ''a''"
    using text_patcher_absorbs_misses
      [of "[]" "Some ''a''" "[]" "''a''" ?add "''(x)[1]''" "''(y)[1]''" "[]" ?del] e n
    by simp
  from t e f n A D show ?thesis by simp
qed

text \<open>
  C8. When the after anchor of a text \<open>add\<close> is found at line \<open>a\<close>, the lines of the result
  are the lines of the document up to and including line \<open>a\<close>, then the lines of the
  payload, then the remaining lines of the document; the result is the same for every
  before anchor, found or not.
\<close>

theorem text_add_after_anchor:
  assumes "find_line_index (split_nl code) (fst (parse_location_pattern after_ln))
       (snd (parse_location_pattern after_ln)) = a"
    and "a \<noteq> - 1"
  shows "split_nl (apply_operation code ''add'' after_ln before_ln blk) =
           take (nat a + 1) (split_nl code) @ split_nl blk @ drop (nat a + 1) (split_nl code)
         \<and> apply_operation code ''add'' after_ln before_ln' blk =
           apply_operation code ''add'' after_ln before_ln blk"
proof -
  let ?ls = "split_nl code"
  from find_line_index_range [OF assms] have r: "0 \<le> a" "a < int (length ?ls)" by simp_all
  have ins: "py_insert ?ls (a + 1) blk = take (nat a + 1) ?ls @ [blk] @ drop (nat a + 1) ?ls"
    using r py_insert_inside [of "a + 1" ?ls blk] by (simp add: nat_add_distrib)
  have app: "\<And>b. apply_operation code ''add'' after_ln b blk =
      join_nl (take (nat a + 1) ?ls @ [blk] @ drop (nat a + 1) ?ls)"
    using assms ins by (simp add: apply_operation_def Let_def split_def)
  have nl: "\<forall>l \<in> set (take (nat a + 1) ?ls). NL \<notin> set l"
    "\<forall>l \<in> set (drop (nat a + 1) ?ls). NL \<notin> set l"
    using split_nl_lines_no_NL by (blast dest: in_set_takeD in_set_dropD)+
  have "split_nl (join_nl (take (nat a + 1) ?ls @ [blk] @ drop (nat a + 1) ?ls)) =
      take (nat a + 1) ?ls @ split_nl blk @ drop (nat a + 1) ?ls"
    using nl by (simp add: split_nl_join concat_split_nl_lines del: take_Suc_conv_app_nth)
  with app show ?thesis by simp
qed

theorem text_add_after_anchor_witness:
  "find_line_index (split_nl (join_nl [''@startuml'', ''class A {'', ''}'', ''@enduml'']))
       (fst (parse_location_pattern ''(class A {)[1]''))
       (snd (parse_location_pattern ''(class A {)[1]'')) = 1
   \<and> (1::int) \<noteq> - 1
   \<and> split_nl (apply_operation (join_nl [''@startuml'', ''class A {'', ''}'', ''@enduml''])
         ''add'' ''(class A {)[1]'' ''(@enduml)[1]'' ''  +field'') =
       [''@startuml'', ''class A {'', ''  +field'', ''}'', ''@enduml'']
   \<and> apply_operation (join_nl [''@startuml'', ''class A {'', ''}'', ''@enduml''])
         ''add'' ''(class A {)[1]'' ''(nothing)[7]'' ''  +field'' =
       apply_operation (join_nl [''@startuml'', ''class A {'', ''}'', ''@enduml''])
         ''add'' ''(class A {)[1]'' ''(@enduml)[1]'' ''  +field''"
proof -
  have p: "parse_location_pattern ''(class A {)[1]'' = (''class A {'', 1)"
    by (simp add: parse_location_pattern_def match_index_def isdigit_def startswith_def
        int_of_digits_def)
  have s: "split_nl (join_nl [''@startuml'', ''class A {'', ''}'', ''@enduml'']) =
      [''@startuml'', ''class A {'', ''}'', ''@enduml'']"
    by simp
  have f: "find_line_index (split_nl (join_nl [''@startuml'', ''class A {'', ''}'', ''@enduml'']))
       (fst (parse_location_pattern ''(class A {)[1]''))
       (snd (parse_location_pattern ''(class A {)[1]'')) = 1"
    unfolding s p by (simp add: find_line_index_def)
  have n: "(1::int) \<noteq> - 1" by simp
  show ?thesis
    using f text_add_after_anchor [OF f n, of "''(@enduml)[1]''" "''  +field''" "''(nothing)[7]''"]
    unfolding s by simp
qed

section \<open>Properties of the retry executor\<close>

lemma last_raised_Cons:
  "last_raised ((e, vm) # fs) = (if fs = [] then Some e else last_raised fs)"
  by (simp add: last_raised_def)

lemma last_reason_Cons:
  "last_reason ((e, vm) # fs) =
     (case last_reason fs of Some m \<Rightarrow> Some m | None \<Rightarrow> vm)"
  by (cases vm) (simp_all add: last_reason_def reasons_def)

lemma last_reason_Nil: "last_reason [] = None"
  by (simp add: last_reason_def reasons_def)

lemma retry_loop_all_fail:
  "failed_attempts f v (length as) w = Some (fs, w') \<Longrightarrow>
   retry_loop f v as le lv w =
     (Exhausted (if fs = [] then le else last_raised fs)
        (case last_reason fs of Some m \<Rightarrow> Some m | None \<Rightarrow> lv), w', as)"
proof (induction as arbitrary: le lv w fs)
  case Nil
  then show ?case by (simp add: last_reason_Nil)
next
  case (Cons a as)
  from Cons.prems obtain e vm w1 fs1 where
    a: "one_attempt f v w = (Caught e vm, w1)"
    and r: "failed_attempts f v (length as) w1 = Some (fs1, w')"
    and fs: "fs = (e, vm) # fs1"
    by (auto split: prod.splits attempt_result.splits option.splits)
  show ?case
    using a Cons.IH [OF r, of "Some e" "case vm of Some m \<Rightarrow> Some m | None \<Rightarrow> lv"]
    by (simp add: fs last_raised_Cons last_reason_Cons split: option.splits)
qed

lemma retry_loop_success:
  "failed_attempts f v (length pre) w = Some (fs, w1) \<Longrightarrow>
   one_attempt f v w1 = (Returned r, w2) \<Longrightarrow>
   retry_loop f v (pre @ a # post) le lv w = (Return r, w2, pre @ [a])"
proof (induction pre arbitrary: le lv w fs)
  case Nil
  then show ?case by simp
next
  case (Cons p pre)
  from Cons.prems(1) obtain e vm w' fs1 where
    a: "one_attempt f v w = (Caught e vm, w')"
    and r: "failed_attempts f v (length pre) w' = Some (fs1, w1)"
    by (auto split: prod.splits attempt_result.splits option.splits)
  show ?case
    using a Cons.IH [OF r Cons.prems(2)] by simp
qed

lemma upto_split_at:
  "k < nat m \<Longrightarrow> [1..m] = [1..int k] @ (int k + 1) # [int k + 2..m]"
proof -
  assume "k < nat m"
  then have "int k + 1 \<le> m" by linarith
  then have "[1..m] = [1..int k + 1 - 1] @ (int k + 1) # [int k + 1 + 1..m]"
    by (intro upto_split3) simp_all
  then show ?thesis by (simp add: add.commute)
qed

text \<open>
  C5. When each of the \<open>max_retries\<close> attempts fails, by an exception that is caught or by
  a failed validation, the wrapper calls the method exactly \<open>max_retries\<close> times (attempts
  \<open>1..max_retries\<close>) and raises one error whose message carries the last exception caught
  and the last validation message. When an attempt returns a result that needs no
  validation or passes it, that result is returned at once and no later attempt runs.
\<close>

theorem retry_executor:
  "(0 \<le> m \<and> failed_attempts f v (nat m) w = Some (fs, w1)
      \<longrightarrow> wrapper name m f v w =
            (Inl (Exc (''['' @ name @ ''] Failed after '' @ str_int m @ '' attempts. ''
                       @ error_details (last_raised fs) (last_reason fs))),
             w1, [1..m]))
   \<and> (k < nat m \<and> failed_attempts f v k w = Some (fs, w1)
        \<and> one_attempt f v w1 = (Returned r, w2)
      \<longrightarrow> wrapper name m f v w = (Inr r, w2, [1..int k + 1]))"
proof (intro conjI impI)
  assume a: "0 \<le> m \<and> failed_attempts f v (nat m) w = Some (fs, w1)"
  then have "failed_attempts f v (length [1..m]) w = Some (fs, w1)" by simp
  from retry_loop_all_fail [OF this, of None None]
  show "wrapper name m f v w =
            (Inl (Exc (''['' @ name @ ''] Failed after '' @ str_int m @ '' attempts. ''
                       @ error_details (last_raised fs) (last_reason fs))),
             w1, [1..m])"
    by (cases "last_reason fs") (simp_all add: wrapper_def last_raised_def)
next
  assume a: "k < nat m \<and> failed_attempts f v k w = Some (fs, w1)
        \<and> one_attempt f v w1 = (Returned r, w2)"
  then have s: "[1..m] = [1..int k] @ (int k + 1) # [int k + 2..m]"
    using upto_split_at by blast
  from a have "failed_attempts f v (length [1..int k]) w = Some (fs, w1)" by simp
  from retry_loop_success [OF this, of r w2 "int k + 1" "[int k + 2..m]" None None] a
  have "retry_loop f v [1..m] None None w = (Return r, w2, [1..int k] @ [int k + 1])"
    by (simp add: s)
  moreover have "[1..int k] @ [int k + 1] = [1..int k + 1]"
    by (simp add: upto_rec2)
  ultimately show "wrapper name m f v w = (Inr r, w2, [1..int k + 1])"
    by (simp add: wrapper_def)
qed

theorem retry_executor_witness:
  "((0::int) \<le> 3
     \<and> failed_attempts (\<lambda>w::nat. (if w = 1 then Inr w else Inl (Exc ''boom''), Suc w))
           (Validator (\<lambda>r w. (Inr (False, ''bad''), w))) (nat 3) 0
         = Some ([(Exc ''boom'', None), (Exc ''Validation failed: bad'', Some ''bad''),
                  (Exc ''boom'', None)], 3)
     \<and> wrapper ''N'' 3 (\<lambda>w::nat. (if w = 1 then Inr w else Inl (Exc ''boom''), Suc w))
           (Validator (\<lambda>r w. (Inr (False, ''bad''), w))) 0
         = (Inl (Exc ''[N] Failed after 3 attempts. Last error: boom | Validation error: bad''),
            3, [1, 2, 3]))
   \<and> ((1::nat) < nat 3
     \<and> failed_attempts (\<lambda>w::nat. (if w = 1 then Inr w else Inl (Exc ''boom''), Suc w))
           (Validator (\<lambda>r w. (Inr (True, []), w))) 1 0
         = Some ([(Exc ''boom'', None)], 1)
     \<and> one_attempt (\<lambda>w::nat. (if w = 1 then Inr w else Inl (Exc ''boom''), Suc w))
           (Validator (\<lambda>r w. (Inr (True, []), w))) 1 = (Returned 1, 2)
     \<and> wrapper ''N'' 3 (\<lambda>w::nat. (if w = 1 then Inr w else Inl (Exc ''boom''), Suc w))
           (Validator (\<lambda>r w. (Inr (True, []), w))) 0
         = (Inr 1, 2, [1, 2]))"
proof -
  let ?f = "\<lambda>w::nat. (if w = 1 then Inr w else Inl (Exc ''boom'') :: pyexc + nat, Suc w)"
  let ?bad = "Validator (\<lambda>(r::nat) (w::nat). (Inr (False, ''bad'') :: pyexc + bool \<times> string, w))"
  let ?good = "Validator (\<lambda>(r::nat) (w::nat). (Inr (True, []) :: pyexc + bool \<times> string, w))"
  have a: "failed_attempts ?f ?bad (nat 3) 0
         = Some ([(Exc ''boom'', None), (Exc ''Validation failed: bad'', Some ''bad''),
                  (Exc ''boom'', None)], 3)"
    by (simp add: eval_nat_numeral one_attempt_def handle_def)
  have b: "failed_attempts ?f ?good 1 0 = Some ([(Exc ''boom'', None)], 1)"
    by (simp add: one_attempt_def handle_def)
  have c: "one_attempt ?f ?good 1 = (Returned 1, 2)"
    by (simp add: one_attempt_def)
  have u: "[1..3::int] = [1, 2, 3]" "[1..2::int] = [1, 2]"
    by (simp_all add: upto_rec1)
  have s: "str_int 3 = ''3''"
    by (simp add: str_int_def str_nat.simps)
  from retry_executor [of 3 ?f ?bad 0 _ 3 "''N''"] a
  have A: "wrapper ''N'' 3 ?f ?bad 0
         = (Inl (Exc ''[N] Failed after 3 attempts. Last error: boom | Validation error: bad''),
            3, [1, 2, 3])"
    by (simp add: u s error_details_def last_raised_def last_reason_def reasons_def str_exc_def)
  from retry_executor [of 3 ?f ?good 0 "[(Exc ''boom'', None)]" 1 "''N''" 1 1 2] b c
  have B: "wrapper ''N'' 3 ?f ?good 0 = (Inr 1, 2, [1, 2])"
    by (simp add: u)
  from a b c A B show ?thesis by simp
qed

section \<open>Properties of the version ledger\<close>

















section \<open>Properties of the structural patcher\<close>

lemma py_contains_dict: "py_contains (JDict kvs) k = Inr (map_of kvs k \<noteq> None)"
  by (simp add: py_contains_def)

lemma py_getitem_dict:
  "py_getitem (JDict kvs) k = (case map_of kvs k of Some x \<Rightarrow> Inr x | None \<Rightarrow> Inl KeyError)"
  by (simp add: py_getitem_def)

lemma py_setitem_dict: "py_setitem (JDict kvs) k x = Inr (JDict (AList.update k x kvs))"
  by (simp add: py_setitem_def)

lemma ensure_key_present:
  "map_of kvs k = Some c \<Longrightarrow> ensure_key (JDict kvs) k dflt = Inr (JDict kvs)"
  by (simp add: ensure_key_def py_contains_dict)

lemma map_of_update_same: "map_of (AList.update k v al) k = Some v"
  by (simp add: AList.update_conv')

lemma insert_then_delete:
  "n \<le> length xs \<Longrightarrow>
   take n (py_insert xs (int n) v) @ drop (Suc n) (py_insert xs (int n) v) = xs"
  by (simp add: py_insert_def Let_def min_def)

lemma length_py_insert: "length (py_insert xs i v) = Suc (length xs)"
  by (simp add: py_insert_def Let_def)

lemma target_round_trip:
  assumes "resolves current [(k, idx)]"
  shows "\<exists>d'. apply_target current ''add'' k idx v = Inr d'
           \<and> apply_target d' ''delete'' k idx w = Inr current"
proof -
  from assms obtain kvs where c: "current = JDict kvs"
    by (cases current) simp_all
  show ?thesis
  proof (cases idx)
    case None
    with assms c have a: "map_of kvs k = None" by simp
    then have "k \<notin> fst ` set kvs" by (simp add: map_of_eq_None_iff)
    then have "AList.delete k (AList.update k v kvs) = kvs"
      by (simp add: AList.delete_update_same)
    then show ?thesis
      using None c
      by (simp add: apply_target_def py_setitem_dict py_contains_dict py_delitem_def
          map_of_update_same)
  next
    case (Some i)
    with assms c obtain n xs where i: "i = IdxNum n" and m: "map_of kvs k = Some (JList xs)"
      by (cases i) (auto split: option.splits json.splits)
    show ?thesis
    proof (cases "n \<le> length xs")
      case True
      let ?ys = "py_insert xs (int n) v"
      have add: "apply_target current ''add'' k idx v =
          Inr (JDict (AList.update k (JList ?ys) kvs))"
        using True Some i m c
        by (simp add: apply_target_def ensure_key_present py_getitem_dict py_len_def
            py_list_insert_def py_setitem_dict)
      have "n < length ?ys" using True by (simp add: length_py_insert)
      then have "apply_target (JDict (AList.update k (JList ?ys) kvs)) ''delete'' k idx w =
          Inr (JDict (AList.update k (JList xs) kvs))"
        using Some i insert_then_delete [OF True, of v]
        by (simp add: apply_target_def py_contains_dict py_getitem_dict py_setitem_dict
            map_of_update_same)
      also have "AList.update k (JList xs) kvs = kvs"
        using m by (rule AList.update_triv)
      finally show ?thesis using add c by simp
    next
      case False
      then show ?thesis
        using Some i m c
        by (simp add: apply_target_def ensure_key_present py_getitem_dict py_len_def
            py_contains_dict)
    qed
  qed
qed

lemma dom_update: "dom (map_of (AList.update k v al)) = insert k (dom (map_of al))"
  by (simp add: AList.update_conv')

lemma py_setitem_keeps:
  "py_setitem (JDict kvs) k x = Inr d \<Longrightarrow>
   \<exists>kvs'. d = JDict kvs' \<and> dom (map_of kvs) \<subseteq> dom (map_of kvs')"
  by (auto simp: py_setitem_dict dom_update)

lemma ensure_key_keeps:
  "ensure_key (JDict kvs) k dflt = Inr d \<Longrightarrow>
   \<exists>kvs'. d = JDict kvs' \<and> dom (map_of kvs) \<subseteq> dom (map_of kvs')"
  by (auto simp: ensure_key_def py_contains_dict py_setitem_dict dom_update split: if_splits)

lemma write_back_keeps:
  "write_back (JDict kvs) k c n child = Inr d \<Longrightarrow>
   \<exists>kvs'. d = JDict kvs' \<and> dom (map_of kvs) \<subseteq> dom (map_of kvs')"
  by (cases c) (auto simp: write_back_def py_setitem_dict dom_update)

lemma apply_target_add_keeps:
  assumes "apply_target (JDict kvs) ''add'' k idx v = Inr d"
  shows "\<exists>kvs'. d = JDict kvs' \<and> dom (map_of kvs) \<subseteq> dom (map_of kvs')"
proof (cases idx)
  case None
  with assms show ?thesis
    by (auto simp: apply_target_def dest: py_setitem_keeps)
next
  case (Some i)
  with assms obtain c1 where e: "ensure_key (JDict kvs) k (JList []) = Inr c1"
    by (auto simp: apply_target_def split: sum.splits)
  from ensure_key_keeps [OF e] obtain kvs1 where
    k1: "c1 = JDict kvs1" "dom (map_of kvs) \<subseteq> dom (map_of kvs1)" by blast
  from assms Some e k1(1) have "d = c1 \<or> (\<exists>x. py_setitem (JDict kvs1) k x = Inr d)"
    by (auto simp: apply_target_def split: sum.splits index.splits if_splits)
  then show ?thesis
    using k1 by (auto dest!: py_setitem_keeps)
qed

lemma case_sum_Inr_iff:
  "((case m of Inl e \<Rightarrow> Inl e | Inr x \<Rightarrow> f x) = Inr d) = (\<exists>x. m = Inr x \<and> f x = Inr d)"
  by (cases m) auto

lemma apply_parts_add_keeps:
  "apply_parts current parts opn v = Inr d \<Longrightarrow> current = JDict kvs \<Longrightarrow> opn = ''add'' \<Longrightarrow>
   \<exists>kvs'. d = JDict kvs' \<and> dom (map_of kvs) \<subseteq> dom (map_of kvs')"
proof (induction current parts opn v arbitrary: kvs d rule: apply_parts.induct)
  case (1 current opn payload)
  then show ?case by simp
next
  case (2 current last_key last_index opn payload)
  then have "apply_target (JDict kvs) ''add'' last_key last_index payload = Inr d" by simp
  then show ?case by (rule apply_target_add_keeps)
next
  case (3 current key p ps opn payload)
  from "3.prems"(1) obtain c1 x where
    e: "ensure_key current key (JDict []) = Inr c1" and s: "py_setitem c1 key x = Inr d"
    by (auto simp: case_sum_Inr_iff)
  from ensure_key_keeps [OF e [unfolded "3.prems"(2)]] obtain kvs1 where
    k1: "c1 = JDict kvs1" "dom (map_of kvs) \<subseteq> dom (map_of kvs1)" by blast
  from py_setitem_keeps [OF s [unfolded k1(1)]] obtain kvs2 where
    k2: "d = JDict kvs2" "dom (map_of kvs1) \<subseteq> dom (map_of kvs2)" by blast
  have "dom (map_of kvs) \<subseteq> dom (map_of kvs2)"
    by (rule subset_trans [OF k1(2) k2(2)])
  with k2(1) show ?case by simp
next
  case (4 current key p ps opn payload)
  from "4.prems"(1) obtain c1 where
    e: "ensure_key current key (JList []) = Inr c1"
    and a: "apply_parts c1 (p # ps) opn payload = Inr d"
    by (auto simp: case_sum_Inr_iff)
  from ensure_key_keeps [OF e [unfolded "4.prems"(2)]] obtain kvs1 where
    k1: "c1 = JDict kvs1" "dom (map_of kvs) \<subseteq> dom (map_of kvs1)" by blast
  from "4.IH" [OF e a k1(1) "4.prems"(3)] obtain kvs2 where
    k2: "d = JDict kvs2" "dom (map_of kvs1) \<subseteq> dom (map_of kvs2)" by blast
  have "dom (map_of kvs) \<subseteq> dom (map_of kvs2)"
    by (rule subset_trans [OF k1(2) k2(2)])
  with k2(1) show ?case by simp
next
  case (5 current key n p ps opn payload)
  from "5.prems"(1) obtain c1 c c2 child where
    e: "ensure_key current key (JList []) = Inr c1"
    and s: "py_setitem c1 key c = Inr c2" and w: "write_back c2 key c n child = Inr d"
    by (auto simp: case_sum_Inr_iff split: prod.splits)
  from ensure_key_keeps [OF e [unfolded "5.prems"(2)]] obtain kvs1 where
    k1: "c1 = JDict kvs1" "dom (map_of kvs) \<subseteq> dom (map_of kvs1)" by blast
  from py_setitem_keeps [OF s [unfolded k1(1)]] obtain kvs2 where
    k2: "c2 = JDict kvs2" "dom (map_of kvs1) \<subseteq> dom (map_of kvs2)" by blast
  from write_back_keeps [OF w [unfolded k2(1)]] obtain kvs3 where
    k3: "d = JDict kvs3" "dom (map_of kvs2) \<subseteq> dom (map_of kvs3)" by blast
  have "dom (map_of kvs) \<subseteq> dom (map_of kvs3)"
    by (rule subset_trans [OF k1(2) subset_trans [OF k2(2) k3(2)]])
  with k3(1) show ?case by simp
qed

lemma descend_inside:
  "n < length xs \<Longrightarrow> descend (JList xs) n = Inr (JList xs, xs ! n)"
  by (simp add: descend_def py_len_def py_getitem_int_def)

lemma write_back_list:
  "write_back (JDict kvs) k (JList xs) n child =
     Inr (JDict (AList.update k (JList (xs[n := child])) kvs))"
  by (simp add: write_back_def py_setitem_dict)

lemma parts_round_trip:
  "resolves current parts \<Longrightarrow> opn = ''add'' \<Longrightarrow>
   \<exists>d'. apply_parts current parts opn v = Inr d'
        \<and> apply_parts d' parts ''delete'' w = Inr current"
proof (induction current parts opn v rule: apply_parts.induct)
  case (1 current opn payload)
  then show ?case by simp
next
  case (2 current last_key last_index opn payload)
  from target_round_trip [OF "2.prems"(1), of payload w] "2.prems"(2)
  show ?case by simp
next
  case (3 current key p ps opn payload)
  from "3.prems"(1) obtain kvs c where
    c: "current = JDict kvs" and m: "map_of kvs key = Some c" and r: "resolves c (p # ps)"
    by (cases current) (auto split: option.splits)
  have e: "ensure_key current key (JDict []) = Inr current"
    using c m by (simp add: ensure_key_present)
  have g: "py_getitem current key = Inr c"
    using c m by (simp add: py_getitem_dict)
  from "3.IH" [OF e g r "3.prems"(2)] obtain c' where
    a: "apply_parts c (p # ps) opn payload = Inr c'"
    and b: "apply_parts c' (p # ps) ''delete'' w = Inr c" by blast
  let ?d = "JDict (AList.update key c' kvs)"
  have add: "apply_parts current ((key, None) # p # ps) opn payload = Inr ?d"
    using e g a c by (simp add: py_setitem_dict)
  have "apply_parts ?d ((key, None) # p # ps) ''delete'' w =
      Inr (JDict (AList.update key c (AList.update key c' kvs)))"
    using b
    by (simp add: ensure_key_present [OF map_of_update_same] py_getitem_dict
        map_of_update_same py_setitem_dict)
  also have "AList.update key c (AList.update key c' kvs) = kvs"
    using m by (simp add: AList.update_triv)
  finally show ?case using add c by simp
next
  case (4 current key p ps opn payload)
  from "4.prems"(1) obtain kvs c where
    c: "current = JDict kvs" and m: "map_of kvs key = Some c"
    and r: "resolves current (p # ps)"
    by (cases current) (auto split: option.splits)
  have e: "ensure_key current key (JList []) = Inr current"
    using c m by (simp add: ensure_key_present)
  from "4.IH" [OF e r "4.prems"(2)] obtain d' where
    a: "apply_parts current (p # ps) opn payload = Inr d'"
    and b: "apply_parts d' (p # ps) ''delete'' w = Inr current" by blast
  from apply_parts_add_keeps [OF a c "4.prems"(2)] obtain kvs' where
    k: "d' = JDict kvs'" "dom (map_of kvs) \<subseteq> dom (map_of kvs')" by blast
  from m k(2) obtain c' where "map_of kvs' key = Some c'" by blast
  then have e': "ensure_key d' key (JList []) = Inr d'"
    using k(1) by (simp add: ensure_key_present)
  show ?case
    using e a e' b by simp
next
  case (5 current key n p ps opn payload)
  from "5.prems"(1) obtain kvs xs where
    c: "current = JDict kvs" and m: "map_of kvs key = Some (JList xs)"
    and n: "n < length xs" and r: "resolves (xs ! n) (p # ps)"
    by (cases current) (auto split: option.splits json.splits)
  have e: "ensure_key current key (JList []) = Inr current"
    using c m by (simp add: ensure_key_present)
  have g: "py_getitem current key = Inr (JList xs)"
    using c m by (simp add: py_getitem_dict)
  have ds: "descend (JList xs) n = Inr (JList xs, xs ! n)"
    using n by (rule descend_inside)
  from "5.IH" [OF e g ds refl r "5.prems"(2)] obtain c' where
    a: "apply_parts (xs ! n) (p # ps) opn payload = Inr c'"
    and b: "apply_parts c' (p # ps) ''delete'' w = Inr (xs ! n)" by blast
  let ?ys = "xs[n := c']"
  let ?kvs' = "AList.update key (JList ?ys) kvs"
  have t: "AList.update key (JList xs) kvs = kvs"
    using m by (rule AList.update_triv)
  have add: "apply_parts current ((key, Some (IdxNum n)) # p # ps) opn payload = Inr (JDict ?kvs')"
    using e g ds a c by (simp add: py_setitem_dict t write_back_list)
  have ds': "descend (JList ?ys) n = Inr (JList ?ys, c')"
    using n descend_inside [of n ?ys] by simp
  have "apply_parts (JDict ?kvs') ((key, Some (IdxNum n)) # p # ps) ''delete'' w =
      Inr (JDict (AList.update key (JList (?ys[n := xs ! n])) ?kvs'))"
    using b ds'
    by (simp add: ensure_key_present [OF map_of_update_same] py_getitem_dict
        map_of_update_same py_setitem_dict write_back_list)
  also have "AList.update key (JList (?ys[n := xs ! n])) ?kvs' = kvs"
    using t by simp
  finally show ?case using add c by simp
qed

text \<open>
  C1 (as amended). When the path of the location resolves in the document (every step
  before the last finds an existing key and, under a numeric index, an existing
  element, and the last step is either an absent key without index or a numeric
  position of an existing list), an \<open>add\<close> at the location followed by a \<open>delete\<close> at the
  same location gives back the document, for one operation after the other and for the
  two as a batch. When the numeric position is beyond the length of the list, the \<open>add\<close>
  and the \<open>delete\<close> both leave the document as it is.
\<close>

theorem add_delete_round_trip:
  "(resolves d (parse_location loc) \<longrightarrow>
      (\<exists>d'. ctx_apply_operation d ''add'' loc v = Inr d'
          \<and> ctx_apply_operation d' ''delete'' loc w = Inr d))
   \<and> (resolves d (parse_location loc) \<and> loc \<noteq> ''root''
        \<and> parse_block_value loads v0 = v \<longrightarrow>
      ctx_apply_loop loads d
        [\<lparr>operation = ''add'', location = loc, block = v0, reasoning = r1\<rparr>,
         \<lparr>operation = ''delete'', location = loc, block = w0, reasoning = r2\<rparr>] = Inr d)
   \<and> (map_of kvs k = Some (JList xs) \<and> length xs < n \<longrightarrow>
      apply_target (JDict kvs) ''add'' k (Some (IdxNum n)) v = Inr (JDict kvs)
      \<and> apply_target (JDict kvs) ''delete'' k (Some (IdxNum n)) w = Inr (JDict kvs))"
proof (intro conjI impI)
  assume "resolves d (parse_location loc)"
  from parts_round_trip [OF this refl]
  show "\<exists>d'. ctx_apply_operation d ''add'' loc v = Inr d'
          \<and> ctx_apply_operation d' ''delete'' loc w = Inr d"
    by (simp add: ctx_apply_operation_def)
next
  assume a: "resolves d (parse_location loc) \<and> loc \<noteq> ''root''
        \<and> parse_block_value loads v0 = v"
  then have "resolves d (parse_location loc)" by simp
  from parts_round_trip [OF this refl, of v "parse_block_value loads w0"] obtain d' where
    "ctx_apply_operation d ''add'' loc v = Inr d'"
    "ctx_apply_operation d' ''delete'' loc (parse_block_value loads w0) = Inr d"
    by (auto simp: ctx_apply_operation_def)
  with a show "ctx_apply_loop loads d
        [\<lparr>operation = ''add'', location = loc, block = v0, reasoning = r1\<rparr>,
         \<lparr>operation = ''delete'', location = loc, block = w0, reasoning = r2\<rparr>] = Inr d"
    by (simp add: Let_def)
next
  assume a: "map_of kvs k = Some (JList xs) \<and> length xs < n"
  then show "apply_target (JDict kvs) ''add'' k (Some (IdxNum n)) v = Inr (JDict kvs)"
    by (simp add: apply_target_def ensure_key_present py_getitem_dict py_len_def)
  from a show "apply_target (JDict kvs) ''delete'' k (Some (IdxNum n)) w = Inr (JDict kvs)"
    by (simp add: apply_target_def py_contains_dict py_getitem_dict)
qed

lemmas ctx_eval =
  ctx_apply_operation_def parse_location_def parse_token_def match_bracket_def isdigit_def
  startswith_def int_of_digits_def apply_target_def ensure_key_def py_contains_def
  py_getitem_def py_setitem_def py_delitem_def py_len_def py_getitem_int_def py_append_def
  py_list_insert_def py_insert_def descend_def pad_to_def write_back_def

theorem add_delete_round_trip_witness:
  "resolves (JDict [(''a'', JList [JDict [(''x'', JInt 1)]])]) (parse_location ''a[0].y'')
   \<and> ctx_apply_operation (JDict [(''a'', JList [JDict [(''x'', JInt 1)]])]) ''add'' ''a[0].y''
         (JStr ''v'') = Inr (JDict [(''a'', JList [JDict [(''x'', JInt 1), (''y'', JStr ''v'')]])])
   \<and> ctx_apply_operation (JDict [(''a'', JList [JDict [(''x'', JInt 1), (''y'', JStr ''v'')]])])
         ''delete'' ''a[0].y'' JNull = Inr (JDict [(''a'', JList [JDict [(''x'', JInt 1)]])])
   \<and> ctx_apply_loop (\<lambda>s. None) (JDict [(''a'', JList [JDict [(''x'', JInt 1)]])])
        [\<lparr>operation = ''add'', location = ''a[0].y'', block = JStr ''v'', reasoning = []\<rparr>,
         \<lparr>operation = ''delete'', location = ''a[0].y'', block = JNull, reasoning = []\<rparr>]
       = Inr (JDict [(''a'', JList [JDict [(''x'', JInt 1)]])])
   \<and> map_of [(''a'', JList [])] ''a'' = Some (JList [])
   \<and> length ([] :: json list) < 5
   \<and> apply_target (JDict [(''a'', JList [])]) ''add'' ''a'' (Some (IdxNum 5)) (JStr ''v'')
       = Inr (JDict [(''a'', JList [])])
   \<and> apply_target (JDict [(''a'', JList [])]) ''delete'' ''a'' (Some (IdxNum 5)) JNull
       = Inr (JDict [(''a'', JList [])])"
proof -
  let ?d = "JDict [(''a'', JList [JDict [(''x'', JInt 1)]])]"
  have p: "parse_location ''a[0].y'' = [(''a'', Some (IdxNum 0)), (''y'', None)]"
    by (simp add: parse_location_def parse_token_def match_bracket_def isdigit_def
        startswith_def int_of_digits_def)
  have r: "resolves ?d (parse_location ''a[0].y'')"
    by (simp add: p)
  have a: "ctx_apply_operation ?d ''add'' ''a[0].y'' (JStr ''v'') =
      Inr (JDict [(''a'', JList [JDict [(''x'', JInt 1), (''y'', JStr ''v'')]])])"
    by (simp add: ctx_apply_operation_def p apply_target_def ensure_key_def py_contains_def
        py_getitem_def py_setitem_def py_len_def py_getitem_int_def descend_def write_back_def)
  have l: "parse_block_value (\<lambda>s. None) (JStr ''v'') = JStr ''v''"
    by (simp add: parse_block_value_def)
  have m: "map_of [(''a'', JList [])] ''a'' = Some (JList []) \<and> length ([] :: json list) < 5"
    by simp
  from add_delete_round_trip
    [of ?d "''a[0].y''" "JStr ''v''" JNull "\<lambda>s. None" "JStr ''v''" "[]" JNull "[]"
      "[(''a'', JList [])]" "''a''" "[]" 5]
    r a l m
  show ?thesis by simp
qed

text \<open>
  C1 as the specification states it fails. After an \<open>add\<close> at \<open>a[end]\<close> the \<open>delete\<close> at \<open>a[end]\<close> does
  nothing, so the appended element stays. And an \<open>add\<close> at \<open>a[5]\<close> on a document without
  the key \<open>a\<close> is out of range but not a no-op: it leaves an empty list under \<open>a\<close>, which
  the \<open>delete\<close> does not take away.
\<close>

theorem add_delete_round_trip_counterexample:
  "ctx_apply_operation (JDict [(''a'', JList [])]) ''add'' ''a[end]'' (JStr ''x'')
     = Inr (JDict [(''a'', JList [JStr ''x''])])
   \<and> ctx_apply_operation (JDict [(''a'', JList [JStr ''x''])]) ''delete'' ''a[end]'' (JStr ''x'')
     = Inr (JDict [(''a'', JList [JStr ''x''])])
   \<and> JDict [(''a'', JList [JStr ''x''])] \<noteq> JDict [(''a'', JList [])]
   \<and> ctx_apply_operation (JDict []) ''add'' ''a[5]'' (JStr ''x'')
     = Inr (JDict [(''a'', JList [])])
   \<and> ctx_apply_operation (JDict [(''a'', JList [])]) ''delete'' ''a[5]'' (JStr ''x'')
     = Inr (JDict [(''a'', JList [])])
   \<and> JDict [(''a'', JList [])] \<noteq> JDict []"
  by (simp add: ctx_eval prefix_def)








lemma ctx_apply_loop_append:
  "ctx_apply_loop loads c (pre @ post) =
     (case ctx_apply_loop loads c pre of
        Inl e \<Rightarrow> Inl e
      | Inr c1 \<Rightarrow> ctx_apply_loop loads c1 post)"
  by (induction pre arbitrary: c) (auto simp: Let_def split: sum.splits)

lemma ctx_apply_loop_root:
  "location p = ''root'' \<Longrightarrow>
   ctx_apply_loop loads c (p # post) =
     (if is_dict (parse_block_value loads (block p))
      then ctx_apply_loop loads (parse_block_value loads (block p)) post
      else Inl ValueError)"
  by (simp add: Let_def)

text \<open>
  C7. For an operation at location \<open>root\<close>: when its normalised payload is not a mapping,
  every batch that holds it fails, with the root error (\<open>ValueError\<close>) when the operations
  before it went through; when the payload is a mapping, the document after the
  operation is that payload, whatever the document was, and the rest of the batch runs
  on it; of two root operations in a row the second one's payload is the result.
\<close>

theorem root_operation_replaces_document:
  "(location p = ''root'' \<and> \<not> is_dict (parse_block_value loads (block p)) \<longrightarrow>
      (\<exists>e. ctx_apply_operations loads prev (pre @ p # post) = Inl e)
      \<and> (\<forall>c. ctx_apply_operations loads prev pre = Inr c \<longrightarrow>
            ctx_apply_operations loads prev (pre @ p # post) = Inl ValueError))
   \<and> (location p = ''root'' \<and> is_dict (parse_block_value loads (block p))
        \<and> ctx_apply_operations loads prev pre = Inr c \<longrightarrow>
      ctx_apply_operations loads prev (pre @ [p]) = Inr (parse_block_value loads (block p))
      \<and> ctx_apply_operations loads prev (pre @ p # post) =
          ctx_apply_loop loads (parse_block_value loads (block p)) post)
   \<and> (location p = ''root'' \<and> is_dict (parse_block_value loads (block p))
        \<and> location q = ''root'' \<and> is_dict (parse_block_value loads (block q))
        \<and> ctx_apply_operations loads prev pre = Inr c \<longrightarrow>
      ctx_apply_operations loads prev (pre @ [p, q]) = Inr (parse_block_value loads (block q)))"
proof -
  let ?c0 = "case prev of None \<Rightarrow> JDict [] | Some kvs \<Rightarrow> JDict kvs"
  have a: "location p = ''root'' \<and> \<not> is_dict (parse_block_value loads (block p)) \<longrightarrow>
      (\<exists>e. ctx_apply_operations loads prev (pre @ p # post) = Inl e)
      \<and> (\<forall>c. ctx_apply_operations loads prev pre = Inr c \<longrightarrow>
            ctx_apply_operations loads prev (pre @ p # post) = Inl ValueError)"
    by (cases "ctx_apply_loop loads ?c0 pre")
      (simp_all add: ctx_apply_operations_def ctx_apply_loop_append [of _ _ pre]
        ctx_apply_loop_root)
  have b: "location p = ''root'' \<and> is_dict (parse_block_value loads (block p))
        \<and> ctx_apply_operations loads prev pre = Inr c \<longrightarrow>
      ctx_apply_operations loads prev (pre @ [p]) = Inr (parse_block_value loads (block p))
      \<and> ctx_apply_operations loads prev (pre @ p # post) =
          ctx_apply_loop loads (parse_block_value loads (block p)) post"
    by (simp add: ctx_apply_operations_def ctx_apply_loop_append [of _ _ pre]
        ctx_apply_loop_root)
  have c: "location p = ''root'' \<and> is_dict (parse_block_value loads (block p))
        \<and> location q = ''root'' \<and> is_dict (parse_block_value loads (block q))
        \<and> ctx_apply_operations loads prev pre = Inr c \<longrightarrow>
      ctx_apply_operations loads prev (pre @ [p, q]) = Inr (parse_block_value loads (block q))"
    by (simp add: ctx_apply_operations_def ctx_apply_loop_append [of _ _ pre]
        ctx_apply_loop_root)
  from a b c show ?thesis by blast
qed

theorem root_operation_replaces_document_witness:
  "\<not> is_dict (parse_block_value (\<lambda>s. None) (JStr ''x''))
   \<and> ctx_apply_operations (\<lambda>s. None) (Some [(''k'', JInt 1)])
        ([] @ \<lparr>operation = ''add'', location = ''root'', block = JStr ''x'', reasoning = []\<rparr> # [])
       = Inl ValueError
   \<and> is_dict (parse_block_value (\<lambda>s. None) (JDict [(''a'', JList [JInt 1])]))
   \<and> ctx_apply_operations (\<lambda>s. None) (Some [(''k'', JInt 1)])
        ([] @ [\<lparr>operation = ''add'', location = ''root'', block = JDict [(''a'', JList [JInt 1])],
                reasoning = []\<rparr>])
       = Inr (JDict [(''a'', JList [JInt 1])])
   \<and> ctx_apply_operations (\<lambda>s. None) (Some [(''k'', JInt 1)])
        ([] @ [\<lparr>operation = ''add'', location = ''root'', block = JDict [(''a'', JList [JInt 1])],
                reasoning = []\<rparr>,
               \<lparr>operation = ''add'', location = ''root'', block = JDict [(''b'', JNull)],
                reasoning = []\<rparr>])
       = Inr (JDict [(''b'', JNull)])"
proof -
  let ?bad = "\<lparr>operation = ''add'', location = ''root'', block = JStr ''x'', reasoning = []\<rparr>"
  let ?p = "\<lparr>operation = ''add'', location = ''root'', block = JDict [(''a'', JList [JInt 1])],
             reasoning = []\<rparr>"
  let ?q = "\<lparr>operation = ''add'', location = ''root'', block = JDict [(''b'', JNull)],
             reasoning = []\<rparr>"
  let ?loads = "\<lambda>s::string. None :: json option"
  have n: "\<not> is_dict (parse_block_value ?loads (JStr ''x''))"
    by (simp add: parse_block_value_def is_dict_def)
  have d: "parse_block_value ?loads (JDict [(''a'', JList [JInt 1])]) = JDict [(''a'', JList [JInt 1])]"
    "parse_block_value ?loads (JDict [(''b'', JNull)]) = JDict [(''b'', JNull)]"
    by (simp_all add: parse_block_value_def)
  have i: "is_dict (JDict [(''a'', JList [JInt 1])])" "is_dict (JDict [(''b'', JNull)])"
    by (simp_all add: is_dict_def)
  have e: "ctx_apply_operations ?loads (Some [(''k'', JInt 1)]) [] = Inr (JDict [(''k'', JInt 1)])"
    by (simp add: ctx_apply_operations_def)
  from root_operation_replaces_document
      [of ?bad ?loads "Some [(''k'', JInt 1)]" "[]" "[]" "JDict [(''k'', JInt 1)]" ?q] n e
  have A: "ctx_apply_operations ?loads (Some [(''k'', JInt 1)]) ([] @ ?bad # []) = Inl ValueError"
    by simp
  from root_operation_replaces_document
      [of ?p ?loads "Some [(''k'', JInt 1)]" "[]" "[]" "JDict [(''k'', JInt 1)]" ?q] d i e
  have B: "ctx_apply_operations ?loads (Some [(''k'', JInt 1)]) ([] @ [?p])
             = Inr (JDict [(''a'', JList [JInt 1])])"
    "ctx_apply_operations ?loads (Some [(''k'', JInt 1)]) ([] @ [?p, ?q])
             = Inr (JDict [(''b'', JNull)])"
    by simp_all
  from n d i A B show ?thesis by simp
qed

lemma startswith_iff: "startswith s c = (\<exists>r. s = c # r)"
  by (cases s) (auto simp: startswith_def)

lemma endswith_iff: "endswith s c = (\<exists>r. s = r @ [c])"
proof
  assume "endswith s c"
  then obtain r where "rev s = c # r" by (auto simp: endswith_def startswith_iff)
  then have "s = rev r @ [c]" by (simp add: rev_swap)
  then show "\<exists>r. s = r @ [c]" by blast
next
  assume "\<exists>r. s = r @ [c]"
  then show "endswith s c" by (auto simp: endswith_def startswith_def)
qed

lemma looks_like_json_iff:
  "looks_like_json s =
     ((\<exists>body. strip s = ''{'' @ body @ ''}'') \<or> (\<exists>body. strip s = ''['' @ body @ '']''))"
proof -
  have "\<And>a b t. (startswith t a \<and> endswith t b \<and> a \<noteq> b) \<Longrightarrow> \<exists>body. t = [a] @ body @ [b]"
  proof -
    fix a b :: char and t
    assume h: "startswith t a \<and> endswith t b \<and> a \<noteq> b"
    then obtain r where r: "t = a # r" by (auto simp: startswith_iff)
    from h obtain r' where r': "t = r' @ [b]" by (auto simp: endswith_iff)
    from r r' h have "r \<noteq> []" by auto
    then obtain body where "r = body @ [b]"
      using r r' by (metis append_butlast_last_id last.simps last_snoc)
    with r show "\<exists>body. t = [a] @ body @ [b]" by simp
  qed
  from this [of "strip s" "CHR ''{''" "CHR ''}''"] this [of "strip s" "CHR ''[''" "CHR '']''"]
  show ?thesis
    by (auto simp: looks_like_json_def Let_def startswith_iff endswith_iff)
qed

text \<open>
  C9. Before a structural operation is applied, a payload that is a string whose
  stripped content begins with \<open>{\<close> and ends with \<open>}\<close>, or begins with \<open>[\<close> and ends with \<open>]\<close>,
  is given to \<open>json.loads\<close> and replaced by what it returns (a mapping or a sequence, by
  the JSON grammar); when \<open>json.loads\<close> fails the string is kept; a string of another
  shape and a payload that is no string pass through unchanged.
\<close>

theorem parse_block_value_normalises:
  "(((\<exists>body. strip s = ''{'' @ body @ ''}'') \<or> (\<exists>body. strip s = ''['' @ body @ '']''))
       \<and> loads s = Some parsed \<longrightarrow>
      parse_block_value loads (JStr s) = parsed
      \<and> (json_grammar loads \<longrightarrow> is_dict parsed \<or> is_list parsed))
   \<and> (((\<exists>body. strip s = ''{'' @ body @ ''}'') \<or> (\<exists>body. strip s = ''['' @ body @ '']''))
       \<and> loads s = None \<longrightarrow>
      parse_block_value loads (JStr s) = JStr s)
   \<and> (\<not> ((\<exists>body. strip s = ''{'' @ body @ ''}'') \<or> (\<exists>body. strip s = ''['' @ body @ '']''))
      \<longrightarrow> parse_block_value loads (JStr s) = JStr s)
   \<and> ((\<forall>t. blk \<noteq> JStr t) \<longrightarrow> parse_block_value loads blk = blk)"
proof (intro conjI impI)
  assume a: "((\<exists>body. strip s = ''{'' @ body @ ''}'') \<or> (\<exists>body. strip s = ''['' @ body @ '']''))
       \<and> loads s = Some parsed"
  then show "parse_block_value loads (JStr s) = parsed"
    by (simp add: parse_block_value_def looks_like_json_iff)
  assume "json_grammar loads"
  with a show "is_dict parsed \<or> is_list parsed"
    by (auto simp: json_grammar_def startswith_iff)
next
  assume "((\<exists>body. strip s = ''{'' @ body @ ''}'') \<or> (\<exists>body. strip s = ''['' @ body @ '']''))
       \<and> loads s = None"
  then show "parse_block_value loads (JStr s) = JStr s"
    by (simp add: parse_block_value_def looks_like_json_iff)
next
  assume "\<not> ((\<exists>body. strip s = ''{'' @ body @ ''}'') \<or> (\<exists>body. strip s = ''['' @ body @ '']''))"
  then show "parse_block_value loads (JStr s) = JStr s"
    by (simp add: parse_block_value_def looks_like_json_iff)
next
  assume "\<forall>t. blk \<noteq> JStr t"
  then show "parse_block_value loads blk = blk"
    by (cases blk) (simp_all add: parse_block_value_def)
qed

theorem parse_block_value_normalises_witness:
  "strip ''{}'' = ''{'' @ [] @ ''}''
   \<and> json_grammar (\<lambda>s. if s = ''{}'' then Some (JDict []) else None)
   \<and> parse_block_value (\<lambda>s. if s = ''{}'' then Some (JDict []) else None) (JStr ''{}'') = JDict []
   \<and> is_dict (JDict [])
   \<and> strip ''[x]'' = ''['' @ ''x'' @ '']''
   \<and> parse_block_value (\<lambda>s. if s = ''{}'' then Some (JDict []) else None) (JStr ''[x]'')
       = JStr ''[x]''
   \<and> strip ''abc'' = ''abc''
   \<and> parse_block_value (\<lambda>s. if s = ''{}'' then Some (JDict []) else None) (JStr ''abc'')
       = JStr ''abc''
   \<and> parse_block_value (\<lambda>s. if s = ''{}'' then Some (JDict []) else None) (JList [JInt 1])
       = JList [JInt 1]"
proof -
  let ?loads = "\<lambda>s. if s = ''{}'' then Some (JDict []) else None"
  have s1: "strip ''{}'' = ''{'' @ [] @ ''}''"
    and s2: "strip ''[x]'' = ''['' @ ''x'' @ '']''"
    and s3: "strip ''abc'' = ''abc''"
    by (simp_all add: strip_def isspace_def)
  have g: "json_grammar ?loads"
    by (simp add: json_grammar_def is_dict_def strip_def isspace_def startswith_def)
  have n3: "\<not> ((\<exists>body. strip ''abc'' = ''{'' @ body @ ''}'')
              \<or> (\<exists>body. strip ''abc'' = ''['' @ body @ '']''))"
    by (simp add: s3)
  have e1: "(\<exists>body. strip ''{}'' = ''{'' @ body @ ''}'') \<or> (\<exists>body. strip ''{}'' = ''['' @ body @ '']'')"
    using s1 by blast
  have e2: "(\<exists>body. strip ''[x]'' = ''{'' @ body @ ''}'') \<or> (\<exists>body. strip ''[x]'' = ''['' @ body @ '']'')"
    using s2 by blast
  have l1: "?loads ''{}'' = Some (JDict [])" and l2: "?loads ''[x]'' = None"
    by simp_all
  from parse_block_value_normalises [of "''{}''" ?loads "JDict []" "JList [JInt 1]"] e1 l1 g
  have A: "parse_block_value ?loads (JStr ''{}'') = JDict []"
    and D: "is_dict (JDict []) \<or> is_list (JDict [])"
    and B: "parse_block_value ?loads (JList [JInt 1]) = JList [JInt 1]"
    by blast+
  from parse_block_value_normalises [of "''[x]''" ?loads "JDict []" "JList [JInt 1]"] e2 l2
  have C: "parse_block_value ?loads (JStr ''[x]'') = JStr ''[x]''"
    by blast
  from parse_block_value_normalises [of "''abc''" ?loads "JDict []" "JList [JInt 1]"] n3
  have E: "parse_block_value ?loads (JStr ''abc'') = JStr ''abc''"
    by blast
  have i: "is_dict (JDict [])" by (simp add: is_dict_def)
  from s1 s2 s3 g A B C E i show ?thesis by simp
qed

end
